theory Spec2Isabelle
  imports Complex_Main
begin

section \<open>Symbols and scope items\<close>

text \<open>
  The parser's \<^verbatim>\<open>Symbol\<close> (imported from \<^verbatim>\<open>../analysis/Symbol\<close>) is used by the hierarchy
  code through \<^verbatim>\<open>name\<close>, \<^verbatim>\<open>type\<close>, \<^verbatim>\<open>typeRef\<close>, \<^verbatim>\<open>children\<close> and its source location
  (\<^verbatim>\<open>doc\<close>, \<^verbatim>\<open>getIdRange()\<close>, \<^verbatim>\<open>getFullRange()\<close>). The location is kept as one number
  \<open>loc\<close>, so that two declarations with equal names and contents are still different
  values, as two objects are in the source. Strings are lists of characters.
\<close>

datatype Symbol =
  Symbol (name: string) (type: string) (typeRef: "string option")
         (children: "Symbol list") (loc: nat)

text \<open>
  The classes of \<^verbatim>\<open>ProjectComponent\<close>: \<^verbatim>\<open>ModuleItem\<close>, \<^verbatim>\<open>LogicItem\<close>, \<^verbatim>\<open>RootItem\<close> and
  \<^verbatim>\<open>InternalScopeItem\<close> all extend \<^verbatim>\<open>ScopeItem\<close> and add no field; the class is kept as
  a tag. The fields \<^verbatim>\<open>instance\<close> and \<^verbatim>\<open>definition\<close> are called \<open>instanceSymbol\<close> and
  \<open>definitionSymbol\<close> here.
\<close>

datatype ItemClass = ModuleItem | LogicItem | RootItem | InternalScopeItem

datatype ScopeItem =
  ScopeItem (cls: ItemClass) (parent: "ScopeItem option")
            (instanceSymbol: Symbol) (definitionSymbol: "Symbol option")

text \<open>The constructors of the four classes (lines 290--315).\<close>

definition newModuleItem :: "ScopeItem option \<Rightarrow> Symbol \<Rightarrow> Symbol option \<Rightarrow> ScopeItem" where
  "newModuleItem p i d = ScopeItem ModuleItem p i d"

definition newLogicItem :: "ScopeItem option \<Rightarrow> Symbol \<Rightarrow> ScopeItem" where
  "newLogicItem p i = ScopeItem LogicItem p i (Some i)"

definition newRootItem :: "Symbol \<Rightarrow> ScopeItem" where
  "newRootItem i = ScopeItem RootItem None i (Some i)"

definition newInternalScopeItem :: "ScopeItem option \<Rightarrow> Symbol \<Rightarrow> ScopeItem" where
  "newInternalScopeItem p s = ScopeItem InternalScopeItem p s (Some s)"

text \<open>\<^verbatim>\<open>ScopeItem.getPath\<close> (lines 203--208).\<close>

fun getPath :: "ScopeItem \<Rightarrow> string" where
  "getPath (ScopeItem c None i d) = name i"
| "getPath (ScopeItem c (Some p) i d) = getPath p @ ''.'' @ name i"

definition EXCLUDED_SYMS :: "string set" where
  "EXCLUDED_SYMS = {''enum'', ''typedef'', ''assert'', ''function''}"

text \<open>\<^verbatim>\<open>ScopeItem.hasChildren\<close> (lines 222--227).\<close>

definition hasChildren :: "ScopeItem \<Rightarrow> bool" where
  "hasChildren item =
     (case definitionSymbol item of
        None \<Rightarrow> False
      | Some d \<Rightarrow> length (filter (\<lambda>child. type child \<notin> EXCLUDED_SYMS) (children d)) > 0)"

text \<open>
  The body of the \<^verbatim>\<open>map\<close> callback in \<^verbatim>\<open>ModuleItem.getChildren\<close> (lines 269--281).
  \<^verbatim>\<open>ext.index.findModuleSymbol\<close> is the workspace lookup, taken as the parameter
  \<open>findModuleSymbol\<close>; \<^verbatim>\<open>undefined\<close> is \<open>None\<close>. The local \<^verbatim>\<open>def\<close> of lines 276--279
  is computed and never used.
\<close>

definition childItem :: "(string \<Rightarrow> Symbol option) \<Rightarrow> ScopeItem \<Rightarrow> Symbol \<Rightarrow> ScopeItem" where
  "childItem findModuleSymbol this child =
     (if type child = ''block'' then newInternalScopeItem (Some this) child
      else if type child = ''instance'' then
        newModuleItem (Some this) child
          (findModuleSymbol (case typeRef child of None \<Rightarrow> [] | Some t \<Rightarrow> t))
      else newLogicItem (Some this) child)"

text \<open>\<^verbatim>\<open>ModuleItem.getChildren\<close> (lines 259--283).\<close>

definition ModuleItem_getChildren :: "(string \<Rightarrow> Symbol option) \<Rightarrow> ScopeItem \<Rightarrow> ScopeItem list" where
  "ModuleItem_getChildren findModuleSymbol this =
     (case definitionSymbol this of
        None \<Rightarrow> []
      | Some d \<Rightarrow>
          if length (children d) = 0 then []
          else map (childItem findModuleSymbol this)
                 (filter (\<lambda>child. type child \<notin> EXCLUDED_SYMS) (children d)))"

text \<open>
  Dynamic dispatch of \<^verbatim>\<open>getChildren\<close>: \<^verbatim>\<open>LogicItem\<close> inherits \<^verbatim>\<open>ScopeItem.getChildren\<close>
  (lines 218--220), the three other classes use \<^verbatim>\<open>ModuleItem.getChildren\<close>.
\<close>

definition getChildren :: "(string \<Rightarrow> Symbol option) \<Rightarrow> ScopeItem \<Rightarrow> ScopeItem list" where
  "getChildren findModuleSymbol item =
     (case cls item of
        LogicItem \<Rightarrow> []
      | _ \<Rightarrow> ModuleItem_getChildren findModuleSymbol item)"

section \<open>Hierarchical path resolution\<close>

text \<open>
  \<^verbatim>\<open>instance.replace(/\[\d+\]/g, '')\<close> (lines 392--393). A global replace scans the
  string from left to right; at each position the pattern matches an opening bracket, one
  or more decimal digits and a closing bracket. A match is removed and the scan goes on
  behind it; otherwise the character is kept and the scan moves one character on. The
  digits are matched greedily, which loses nothing: a run of digits cut short is followed
  by a digit, not by the closing bracket.
\<close>

definition isDigit :: "char \<Rightarrow> bool" where
  "isDigit c = (c \<in> set ''0123456789'')"

text \<open>The rest of the string behind a match of the pattern at its start, if there is one.\<close>

definition matchIndex :: "string \<Rightarrow> string option" where
  "matchIndex s =
     (case s of
        [] \<Rightarrow> None
      | c # cs \<Rightarrow>
          if c = CHR ''['' \<and> takeWhile isDigit cs \<noteq> [] then
            (case dropWhile isDigit cs of
               [] \<Rightarrow> None
             | e # rest \<Rightarrow> if e = CHR '']'' then Some rest else None)
          else None)"

lemma matchIndex_shorter: "matchIndex s = Some rest \<Longrightarrow> length rest < length s"
proof -
  assume m: "matchIndex s = Some rest"
  then obtain c cs where s: "s = c # cs"
    by (cases s) (auto simp: matchIndex_def)
  from m s have "\<exists>e. dropWhile isDigit cs = e # rest"
    by (auto simp: matchIndex_def split: if_splits list.splits)
  then obtain e where "dropWhile isDigit cs = e # rest" ..
  then have "Suc (length rest) = length (dropWhile isDigit cs)" by simp
  also have "\<dots> \<le> length cs" by (rule length_dropWhile_le)
  finally show ?thesis using s by simp
qed

function stripIndices :: "string \<Rightarrow> string" where
  "stripIndices [] = []"
| "stripIndices (c # cs) =
     (case matchIndex (c # cs) of
        Some rest \<Rightarrow> stripIndices rest
      | None \<Rightarrow> c # stripIndices cs)"
  by pat_completeness auto
termination
  by (relation "measure length") (auto dest: matchIndex_shorter)

text \<open>
  \<^verbatim>\<open>cleaned.split('.')\<close> (line 394): the pieces between the separators, in order. The
  empty string gives one empty piece, and a separator at either end gives an empty piece
  there.
\<close>

fun split :: "char \<Rightarrow> string \<Rightarrow> string list" where
  "split sep [] = [[]]"
| "split sep (c # cs) =
     (if c = sep then [] # split sep cs
      else (case split sep cs of
              [] \<Rightarrow> [[c]]
            | w # ws \<Rightarrow> (c # w) # ws))"

text \<open>\<^verbatim>\<open>ProjectComponent.getChildren\<close> (lines 473--481); \<open>theTop\<close> is the field \<^verbatim>\<open>this.top\<close>.\<close>

definition ProjectComponent_getChildren ::
  "(string \<Rightarrow> Symbol option) \<Rightarrow> Symbol option \<Rightarrow> ScopeItem option \<Rightarrow> ScopeItem list" where
  "ProjectComponent_getChildren findModuleSymbol theTop element =
     (case element of
        None \<Rightarrow> (case theTop of None \<Rightarrow> [] | Some t \<Rightarrow> [newRootItem t])
      | Some e \<Rightarrow> getChildren findModuleSymbol e)"

text \<open>
  What \<^verbatim>\<open>setInstance\<close> can end with: the error message of line 400, built from the
  unmatched part and the name of the current item (or the words \<^verbatim>\<open>top level\<close>), or the
  item it reveals; \<open>Inr None\<close> is a return that reveals nothing.
\<close>

datatype error = CouldNotFind string string

definition errorMessage :: "error \<Rightarrow> string" where
  "errorMessage e =
     (case e of CouldNotFind part place \<Rightarrow>
        ''Could not find instance '' @ part @ '' in '' @ place)"

text \<open>The loop of lines 395--406 over the remaining parts, from the current item.\<close>

fun walkParts ::
  "(string \<Rightarrow> Symbol option) \<Rightarrow> Symbol option \<Rightarrow> ScopeItem option \<Rightarrow> string list
     \<Rightarrow> error + ScopeItem option" where
  "walkParts findModuleSymbol theTop current [] = Inr current"
| "walkParts findModuleSymbol theTop current (part # parts) =
     (case find (\<lambda>child. name (instanceSymbol child) = part)
             (ProjectComponent_getChildren findModuleSymbol theTop current) of
        None \<Rightarrow>
          Inl (CouldNotFind part
                 (case current of None \<Rightarrow> ''top level'' | Some c \<Rightarrow> name (instanceSymbol c)))
      | Some child \<Rightarrow> walkParts findModuleSymbol theTop (Some child) parts)"

text \<open>
  The argument of \<^verbatim>\<open>setInstance\<close> is a string or a \<^verbatim>\<open>vscode.Uri\<close>. The handler
  (lines 377--414) returns nothing; its result here is the item passed to
  \<^verbatim>\<open>treeView.reveal\<close>. With no top selected it starts the selection dialog without
  waiting for it and returns.
\<close>

datatype InstanceArg = PathString string | Uri

definition setInstance ::
  "(string \<Rightarrow> Symbol option) \<Rightarrow> Symbol option \<Rightarrow> InstanceArg \<Rightarrow> error + ScopeItem option" where
  "setInstance findModuleSymbol theTop arg =
     (case theTop of
        None \<Rightarrow> Inr None
      | Some t \<Rightarrow>
          (case arg of
             Uri \<Rightarrow> Inr None
           | PathString inst \<Rightarrow>
               walkParts findModuleSymbol theTop None (split CHR ''.'' (stripIndices inst))))"

section \<open>The reverse instance index\<close>

text \<open>
  \<^verbatim>\<open>InstancesView.modules\<close> maps a definition symbol to the \<^verbatim>\<open>ModuleItem\<close> of the
  instances view, whose \<^verbatim>\<open>instances\<close> map a path to an \<^verbatim>\<open>InstanceViewItem\<close> wrapping the
  indexed item. The inner map is kept, holding the indexed item itself. The other three
  fields are the locals \<^verbatim>\<open>pct\<close> and \<^verbatim>\<open>lastReport\<close> of \<^verbatim>\<open>indexTop\<close> and the calls of
  \<^verbatim>\<open>progress.report\<close> made so far, each with its increment and its message.

  \<^verbatim>\<open>pct\<close> is a double in the source. It is a rational here, and \<^verbatim>\<open>0.001\<close> is one
  thousandth: the rounding of the floating-point operations is left out.
\<close>

record Indexing =
  modules :: "Symbol \<rightharpoonup> (string \<rightharpoonup> ScopeItem)"
  pct :: rat
  lastReport :: int
  reported :: "(int \<times> string option) list"

text \<open>
  \<^verbatim>\<open>this.modules.get(key)\<close> on the \<^verbatim>\<open>DefaultMap\<close> of line 100: a symbol without an entry
  gets a new \<^verbatim>\<open>ModuleItem\<close>, which has no instances.
\<close>

definition DefaultMap_get :: "(Symbol \<rightharpoonup> (string \<rightharpoonup> ScopeItem)) \<Rightarrow> Symbol \<Rightarrow> (string \<rightharpoonup> ScopeItem)" where
  "DefaultMap_get m key = (case m key of None \<Rightarrow> Map.empty | Some instances \<Rightarrow> instances)"

text \<open>\<^verbatim>\<open>ModuleItem.addInstance\<close> of the instances view (lines 48--50).\<close>

definition addInstance :: "(string \<rightharpoonup> ScopeItem) \<Rightarrow> ScopeItem \<Rightarrow> (string \<rightharpoonup> ScopeItem)" where
  "addInstance instances item = instances(getPath item \<mapsto> item)"

text \<open>
  Modelled from the spec: the class \<^verbatim>\<open>InstanceItem\<close> of the test
  \<^verbatim>\<open>item instanceof InstanceItem\<close> (line 117) is imported from a version of
  \<^verbatim>\<open>ProjectComponent\<close> that is not among the sources. The spec records the nodes of kind
  Module, the nodes built for a child of type \<^verbatim>\<open>instance\<close>: the items of class
  \<^verbatim>\<open>ModuleItem\<close> itself.
\<close>

definition instanceof_InstanceItem :: "ScopeItem \<Rightarrow> bool" where
  "instanceof_InstanceItem item = (cls item = ModuleItem)"

text \<open>The callback given to \<^verbatim>\<open>preOrderTraversal\<close> (lines 116--126).\<close>

definition visit :: "Indexing \<Rightarrow> ScopeItem \<Rightarrow> Indexing" where
  "visit st item =
     (if instanceof_InstanceItem item then
        (case definitionSymbol item of
           None \<Rightarrow> st
         | Some d \<Rightarrow>
             let ms = (modules st)(d \<mapsto> addInstance (DefaultMap_get (modules st) d) item);
                 p = pct st + (95 - pct st) * (1 / 1000);
                 fl = \<lfloor>p\<rfloor>
             in if fl > lastReport st then
                  st\<lparr>modules := ms, pct := p, lastReport := fl,
                     reported := reported st @ [(fl - lastReport st, None)]\<rparr>
                else st\<lparr>modules := ms, pct := p\<rparr>)
      else st)"

text \<open>
  \<^verbatim>\<open>indexTop\<close> (lines 101--132) over the items that the traversal hands to the callback,
  in that order. \<open>old\<close> is the index before the call, which \<^verbatim>\<open>this.modules.clear()\<close>
  empties.
\<close>

definition indexItems :: "(Symbol \<rightharpoonup> (string \<rightharpoonup> ScopeItem)) \<Rightarrow> ScopeItem list \<Rightarrow> Indexing" where
  "indexItems old visited =
     (let st0 = \<lparr>modules = Map.empty, pct = 0, lastReport = 0,
                 reported = [(0, Some ''Starting...'')]\<rparr>;
          st1 = foldl visit st0 visited
      in st1\<lparr>reported := reported st1 @ [(100, Some ''Done'')]\<rparr>)"

text \<open>\<^verbatim>\<open>revealPath\<close> (lines 133--142): the instance it reveals, if any.\<close>

definition revealPath :: "(Symbol \<rightharpoonup> (string \<rightharpoonup> ScopeItem)) \<Rightarrow> Symbol \<Rightarrow> string \<Rightarrow> ScopeItem option" where
  "revealPath m defn path = DefaultMap_get m defn path"

text \<open>
  The progress shown after each report. \<^verbatim>\<open>progress\<close> is the object that
  \<^verbatim>\<open>vscode.window.withProgress\<close> hands to the callback of line 112; its declaration in
  \<^verbatim>\<open>vscode.d.ts\<close> says of the increments that they are summed up until 100% is reached.
  The sum shown so far is \<open>acc\<close>; it stops at 100.
\<close>

fun cumulative :: "int \<Rightarrow> int list \<Rightarrow> int list" where
  "cumulative acc [] = []"
| "cumulative acc (i # incs) = min 100 (acc + i) # cumulative (min 100 (acc + i)) incs"

subsection \<open>The traversal\<close>

text \<open>
  Modelled from the spec: \<^verbatim>\<open>ext.index.findModuleSymbol\<close> is not among the sources. The spec
  has it return the module or interface of that name in the indexed workspace, the first
  match when several have the name, and nothing when there is none. \<open>ws\<close> lists the
  symbols of the workspace.
\<close>

definition workspace_findModuleSymbol :: "Symbol list \<Rightarrow> string \<Rightarrow> Symbol option" where
  "workspace_findModuleSymbol ws nm =
     find (\<lambda>s. name s = nm \<and> (type s = ''module'' \<or> type s = ''interface'')) ws"

text \<open>
  Two measures for the traversal below: the workspace symbols that are not on the current
  path, and the size of an item's definition when it is not a workspace symbol.
\<close>

definition pending :: "Symbol list \<Rightarrow> Symbol list \<Rightarrow> nat" where
  "pending ws path = card (set ws - set path)"

definition weight :: "Symbol list \<Rightarrow> ScopeItem \<Rightarrow> nat" where
  "weight ws item =
     (case definitionSymbol item of
        None \<Rightarrow> 0
      | Some d \<Rightarrow> if d \<in> set ws then 0 else Suc (size d))"

lemma workspace_findModuleSymbol_mem:
  "workspace_findModuleSymbol ws nm = Some s \<Longrightarrow> s \<in> set ws"
  by (auto simp: workspace_findModuleSymbol_def find_Some_iff)

lemma child_size: "c \<in> set (children d) \<Longrightarrow> size c < size d"
  by (cases d) (auto simp: less_Suc_eq_le intro: size_list_estimation')

lemma pending_less: "d \<in> set ws \<Longrightarrow> d \<notin> set path \<Longrightarrow> pending ws (d # path) < pending ws path"
  unfolding pending_def
  by (intro psubset_card_mono) auto

lemma pending_same: "d \<notin> set ws \<Longrightarrow> pending ws (d # path) = pending ws path"
  unfolding pending_def by (rule arg_cong [where f = card]) auto

lemma weight_child:
  assumes "definitionSymbol item = Some d" "d \<notin> set ws"
    and "c \<in> set (getChildren (workspace_findModuleSymbol ws) item)"
  shows "weight ws c < weight ws item"
proof -
  from assms(1,3) obtain child where ch: "child \<in> set (children d)"
    and c: "c = childItem (workspace_findModuleSymbol ws) item child"
    by (cases "cls item") (auto simp: getChildren_def ModuleItem_getChildren_def split: if_splits)
  have "weight ws c \<le> Suc (size child)"
    using c
    by (auto simp: weight_def childItem_def newInternalScopeItem_def newModuleItem_def
        newLogicItem_def split: option.splits dest: workspace_findModuleSymbol_mem)
  also have "Suc (size child) \<le> size d" using child_size [OF ch] by simp
  finally show ?thesis using assms(1,2) by (simp add: weight_def)
qed

text \<open>
  Modelled from the spec: \<^verbatim>\<open>preOrderTraversal\<close>, which \<^verbatim>\<open>indexTop\<close> calls on the root item,
  is not among the sources. The spec visits a node, then expands it and visits each child,
  depth first and left to right; it keeps the definition symbols on the path from the root
  to the node being expanded, and does not expand a node whose definition is already on
  that path. \<open>path\<close> holds those definitions, and the result lists the visited nodes in
  the order of their visits.
\<close>

function preOrderTraversal :: "Symbol list \<Rightarrow> Symbol list \<Rightarrow> ScopeItem \<Rightarrow> ScopeItem list" where
  "preOrderTraversal ws path item =
     item #
     (case definitionSymbol item of
        None \<Rightarrow> []
      | Some d \<Rightarrow>
          if d \<in> set path then []
          else concat (map (preOrderTraversal ws (d # path))
                         (getChildren (workspace_findModuleSymbol ws) item)))"
  by pat_completeness auto
termination
proof (relation "measures [\<lambda>(ws, path, item). pending ws path, \<lambda>(ws, path, item). weight ws item]")
  show "wf (measures [\<lambda>(ws, path, item). pending ws path, \<lambda>(ws, path, item). weight ws item])"
    by simp
next
  fix ws path item d c
  assume "definitionSymbol item = Some d" "d \<notin> set path"
    "c \<in> set (getChildren (workspace_findModuleSymbol ws) item)"
  then show "((ws, d # path, c), (ws, path, item))
      \<in> measures [\<lambda>(ws, path, item). pending ws path, \<lambda>(ws, path, item). weight ws item]"
    using pending_less [of d ws path] pending_same [of d ws path] weight_child [of item d ws c]
    by (cases "d \<in> set ws") auto
qed

text \<open>
  The equation of the traversal is no rewrite rule: it is unfolded where a proof needs it.
\<close>

declare preOrderTraversal.simps [simp del]

text \<open>\<^verbatim>\<open>indexTop\<close> on the root item of a top symbol.\<close>

definition indexTop ::
  "Symbol list \<Rightarrow> (Symbol \<rightharpoonup> (string \<rightharpoonup> ScopeItem)) \<Rightarrow> Symbol \<Rightarrow> Indexing" where
  "indexTop ws old theTop = indexItems old (preOrderTraversal ws [] (newRootItem theTop))"

section \<open>Notions used in the statements\<close>

text \<open>
  The hierarchical path in the words of the spec: the names of the instance symbols from
  the root down to the item, joined with dots.
\<close>

fun rootDown :: "ScopeItem \<Rightarrow> ScopeItem list" where
  "rootDown (ScopeItem c None i d) = [ScopeItem c None i d]"
| "rootDown (ScopeItem c (Some p) i d) = rootDown p @ [ScopeItem c (Some p) i d]"

fun join :: "string \<Rightarrow> string list \<Rightarrow> string" where
  "join sep [] = []"
| "join sep [x] = x"
| "join sep (x # y # ys) = x @ sep @ join sep (y # ys)"

definition spec_hierarchicalPath :: "ScopeItem \<Rightarrow> string" where
  "spec_hierarchicalPath item = join ''.'' (map (\<lambda>n. name (instanceSymbol n)) (rootDown item))"

text \<open>The items that the callback of \<^verbatim>\<open>indexTop\<close> records.\<close>

definition recorded :: "ScopeItem \<Rightarrow> bool" where
  "recorded item = (cls item = ModuleItem \<and> definitionSymbol item \<noteq> None)"

text \<open>
  What holds of the progress between two calls of the callback: \<^verbatim>\<open>pct\<close> has not reached
  95, \<^verbatim>\<open>lastReport\<close> is its integer part and the sum of the increments reported, and no
  increment is negative.
\<close>

definition progress_inv :: "Indexing \<Rightarrow> bool" where
  "progress_inv st =
     (0 \<le> pct st \<and> pct st < 95 \<and> lastReport st = \<lfloor>pct st\<rfloor> \<and>
      sum_list (map fst (reported st)) = lastReport st \<and>
      list_all (\<lambda>r. 0 \<le> fst r) (reported st))"

text \<open>
  A path of the hierarchy: each item is among the children of the item before it.
\<close>

fun isChain :: "(string \<Rightarrow> Symbol option) \<Rightarrow> ScopeItem list \<Rightarrow> bool" where
  "isChain f [] = True"
| "isChain f [a] = True"
| "isChain f (a # b # rest) = (b \<in> set (getChildren f a) \<and> isChain f (b # rest))"

text \<open>The definitions of the items above an item, the nearest first.\<close>

fun ancestorDefs :: "ScopeItem \<Rightarrow> Symbol list" where
  "ancestorDefs (ScopeItem c None i d) = []"
| "ancestorDefs (ScopeItem c (Some p) i d) =
     (case definitionSymbol p of
        None \<Rightarrow> ancestorDefs p
      | Some dp \<Rightarrow> dp # ancestorDefs p)"

text \<open>Two items of the same class, for the same symbol, with the same definition.\<close>

definition sameItem :: "ScopeItem \<Rightarrow> ScopeItem \<Rightarrow> bool" where
  "sameItem a b =
     (cls a = cls b \<and> instanceSymbol a = instanceSymbol b \<and>
      definitionSymbol a = definitionSymbol b)"




section \<open>An example design\<close>

text \<open>
  A top module with two instances of a module \<^verbatim>\<open>Leaf\<close> (one of them inside a block), a
  type definition, a task with a local register, and an instance of a module that the
  workspace does not have.
\<close>

definition ex_clk :: Symbol where
  "ex_clk = Symbol ''clk'' ''port'' None [] 11"

definition ex_Leaf :: Symbol where
  "ex_Leaf = Symbol ''Leaf'' ''module'' None [ex_clk] 10"

definition ex_u1 :: Symbol where
  "ex_u1 = Symbol ''u1'' ''instance'' (Some ''Leaf'') [] 2"

definition ex_u2 :: Symbol where
  "ex_u2 = Symbol ''u2'' ''instance'' (Some ''Leaf'') [] 5"

definition ex_blk :: Symbol where
  "ex_blk = Symbol ''blk'' ''block'' None [ex_u2] 4"

definition ex_i :: Symbol where
  "ex_i = Symbol ''i'' ''register'' None [] 7"

definition ex_init :: Symbol where
  "ex_init = Symbol ''init'' ''task'' None [ex_i] 6"

definition ex_u3 :: Symbol where
  "ex_u3 = Symbol ''u3'' ''instance'' (Some ''Missing'') [] 8"

definition ex_Top :: Symbol where
  "ex_Top = Symbol ''Top'' ''module'' None
     [ex_u1, Symbol ''state_t'' ''typedef'' None [] 3, ex_blk, ex_init, ex_u3] 1"

definition ex_ws :: "Symbol list" where
  "ex_ws = [ex_Top, ex_Leaf]"

definition ex_find :: "string \<Rightarrow> Symbol option" where
  "ex_find = workspace_findModuleSymbol ex_ws"

definition ex_root :: ScopeItem where
  "ex_root = newRootItem ex_Top"

definition ex_item_u1 :: ScopeItem where
  "ex_item_u1 = ScopeItem ModuleItem (Some ex_root) ex_u1 (Some ex_Leaf)"

definition ex_item_blk :: ScopeItem where
  "ex_item_blk = ScopeItem InternalScopeItem (Some ex_root) ex_blk (Some ex_blk)"

definition ex_item_u2 :: ScopeItem where
  "ex_item_u2 = ScopeItem ModuleItem (Some ex_item_blk) ex_u2 (Some ex_Leaf)"

definition ex_item_init :: ScopeItem where
  "ex_item_init = ScopeItem LogicItem (Some ex_root) ex_init (Some ex_init)"

definition ex_item_u3 :: ScopeItem where
  "ex_item_u3 = ScopeItem ModuleItem (Some ex_root) ex_u3 None"

text \<open>A top module with eleven instances.\<close>

definition ex_Wide :: Symbol where
  "ex_Wide = Symbol ''Wide'' ''module'' None
     [Symbol ''u0'' ''instance'' (Some ''Leaf'') [] 41,
      Symbol ''u1'' ''instance'' (Some ''Leaf'') [] 42,
      Symbol ''u2'' ''instance'' (Some ''Leaf'') [] 43,
      Symbol ''u3'' ''instance'' (Some ''Leaf'') [] 44,
      Symbol ''u4'' ''instance'' (Some ''Leaf'') [] 45,
      Symbol ''u5'' ''instance'' (Some ''Leaf'') [] 46,
      Symbol ''u6'' ''instance'' (Some ''Leaf'') [] 47,
      Symbol ''u7'' ''instance'' (Some ''Leaf'') [] 48,
      Symbol ''u8'' ''instance'' (Some ''Leaf'') [] 49,
      Symbol ''u9'' ''instance'' (Some ''Leaf'') [] 50,
      Symbol ''u10'' ''instance'' (Some ''Leaf'') [] 51] 40"

definition ex_wide_ws :: "Symbol list" where
  "ex_wide_ws = [ex_Wide, ex_Leaf]"

text \<open>The items of its eleven instances.\<close>

definition ex_wide_items :: "ScopeItem list" where
  "ex_wide_items =
     map (\<lambda>c. ScopeItem ModuleItem (Some (newRootItem ex_Wide)) c (Some ex_Leaf)) (children ex_Wide)"

text \<open>A top module with two instances of one name, as the two branches of a conditional
  generate give them.\<close>

definition ex_Dup :: Symbol where
  "ex_Dup = Symbol ''Dup'' ''module'' None
     [Symbol ''u'' ''instance'' (Some ''Leaf'') [] 61,
      Symbol ''u'' ''instance'' (Some ''Leaf'') [] 62] 60"

definition ex_dup_ws :: "Symbol list" where
  "ex_dup_ws = [ex_Dup, ex_Leaf]"

definition ex_dup_first :: ScopeItem where
  "ex_dup_first = ScopeItem ModuleItem (Some (newRootItem ex_Dup))
     (Symbol ''u'' ''instance'' (Some ''Leaf'') [] 61) (Some ex_Leaf)"

definition ex_dup_second :: ScopeItem where
  "ex_dup_second = ScopeItem ModuleItem (Some (newRootItem ex_Dup))
     (Symbol ''u'' ''instance'' (Some ''Leaf'') [] 62) (Some ex_Leaf)"

text \<open>Two modules that instantiate each other.\<close>

definition ex_A :: Symbol where
  "ex_A = Symbol ''A'' ''module'' None [Symbol ''b'' ''instance'' (Some ''B'') [] 71] 70"

definition ex_B :: Symbol where
  "ex_B = Symbol ''B'' ''module'' None [Symbol ''a'' ''instance'' (Some ''A'') [] 81] 80"

definition ex_cycle_ws :: "Symbol list" where
  "ex_cycle_ws = [ex_A, ex_B]"

definition ex_item_b :: ScopeItem where
  "ex_item_b = ScopeItem ModuleItem (Some (newRootItem ex_A))
     (Symbol ''b'' ''instance'' (Some ''B'') [] 71) (Some ex_B)"

definition ex_item_a :: ScopeItem where
  "ex_item_a = ScopeItem ModuleItem (Some ex_item_b)
     (Symbol ''a'' ''instance'' (Some ''A'') [] 81) (Some ex_A)"

lemmas ex_defs = ex_clk_def ex_Leaf_def ex_u1_def ex_u2_def ex_blk_def ex_i_def ex_init_def ex_u3_def
  ex_Top_def ex_ws_def ex_find_def ex_root_def workspace_findModuleSymbol_def

lemmas getChildren_defs = getChildren_def ModuleItem_getChildren_def childItem_def
  newModuleItem_def newLogicItem_def newRootItem_def newInternalScopeItem_def EXCLUDED_SYMS_def

lemmas ex_item_defs = ex_item_u1_def ex_item_blk_def ex_item_u2_def ex_item_init_def
  ex_item_u3_def ex_clk_def ex_root_def newRootItem_def

section \<open>Expansion of a scope item\<close>

lemma ex_root_children:
  "getChildren ex_find ex_root =
     [ScopeItem ModuleItem (Some ex_root) ex_u1 (Some ex_Leaf),
      ScopeItem InternalScopeItem (Some ex_root) ex_blk (Some ex_blk),
      ScopeItem LogicItem (Some ex_root) ex_init (Some ex_init),
      ScopeItem ModuleItem (Some ex_root) ex_u3 None]"
  by (simp add: getChildren_defs ex_defs)

lemma getChildren_None: "definitionSymbol item = None \<Longrightarrow> getChildren f item = []"
  by (cases "cls item") (simp_all add: getChildren_defs)

lemma getChildren_LogicItem: "cls item = LogicItem \<Longrightarrow> getChildren f item = []"
  by (simp add: getChildren_def)

lemma getChildren_Some:
  "cls item \<noteq> LogicItem \<Longrightarrow> definitionSymbol item = Some d \<Longrightarrow>
   getChildren f item =
     map (childItem f item) (filter (\<lambda>child. type child \<notin> EXCLUDED_SYMS) (children d))"
  by (cases "cls item") (simp_all add: getChildren_def ModuleItem_getChildren_def)

lemma instanceSymbol_childItem [simp]: "instanceSymbol (childItem f item c) = c"
  by (simp add: childItem_def newModuleItem_def newLogicItem_def newInternalScopeItem_def)

lemma parent_childItem [simp]: "parent (childItem f item c) = Some item"
  by (simp add: childItem_def newModuleItem_def newLogicItem_def newInternalScopeItem_def)

text \<open>
  C1, as amended. For every scope item other than a \<^verbatim>\<open>LogicItem\<close> whose definition is
  resolved, every item that \<^verbatim>\<open>getChildren\<close> returns has that item as its parent and stands
  for a child of the definition whose type is not excluded, and every such child has an
  item. A child of type \<^verbatim>\<open>block\<close> gives an \<^verbatim>\<open>InternalScopeItem\<close> whose definition is the
  block symbol itself; a child of type \<^verbatim>\<open>instance\<close> gives a \<^verbatim>\<open>ModuleItem\<close> whose
  definition is what \<^verbatim>\<open>findModuleSymbol\<close> returns for its \<^verbatim>\<open>typeRef\<close> (for the empty string
  when it has none), also when that is nothing; a child of any other type gives a
  \<^verbatim>\<open>LogicItem\<close> whose definition is the child symbol itself, not nothing.
\<close>

theorem getChildren_by_type:
  assumes "cls item \<noteq> LogicItem" and "definitionSymbol item = Some d"
  shows "(\<forall>n \<in> set (getChildren f item).
            parent n = Some item \<and>
            instanceSymbol n \<in> set (children d) \<and>
            type (instanceSymbol n) \<notin> EXCLUDED_SYMS \<and>
            (type (instanceSymbol n) = ''block'' \<longrightarrow>
               cls n = InternalScopeItem \<and> definitionSymbol n = Some (instanceSymbol n)) \<and>
            (type (instanceSymbol n) = ''instance'' \<longrightarrow>
               cls n = ModuleItem \<and>
               definitionSymbol n =
                 f (case typeRef (instanceSymbol n) of None \<Rightarrow> [] | Some t \<Rightarrow> t)) \<and>
            (type (instanceSymbol n) \<noteq> ''block'' \<and> type (instanceSymbol n) \<noteq> ''instance'' \<longrightarrow>
               cls n = LogicItem \<and> definitionSymbol n = Some (instanceSymbol n))) \<and>
         (\<forall>c \<in> set (children d). type c \<notin> EXCLUDED_SYMS \<longrightarrow>
            (\<exists>n \<in> set (getChildren f item). instanceSymbol n = c))"
proof -
  have gc: "getChildren f item =
      map (childItem f item) (filter (\<lambda>child. type child \<notin> EXCLUDED_SYMS) (children d))"
    using assms by (rule getChildren_Some)
  have "\<exists>n \<in> set (getChildren f item). instanceSymbol n = c"
    if "c \<in> set (children d)" "type c \<notin> EXCLUDED_SYMS" for c
    using that unfolding gc by (intro bexI [of _ "childItem f item c"]) simp_all
  moreover have "parent n = Some item \<and>
            instanceSymbol n \<in> set (children d) \<and>
            type (instanceSymbol n) \<notin> EXCLUDED_SYMS \<and>
            (type (instanceSymbol n) = ''block'' \<longrightarrow>
               cls n = InternalScopeItem \<and> definitionSymbol n = Some (instanceSymbol n)) \<and>
            (type (instanceSymbol n) = ''instance'' \<longrightarrow>
               cls n = ModuleItem \<and>
               definitionSymbol n =
                 f (case typeRef (instanceSymbol n) of None \<Rightarrow> [] | Some t \<Rightarrow> t)) \<and>
            (type (instanceSymbol n) \<noteq> ''block'' \<and> type (instanceSymbol n) \<noteq> ''instance'' \<longrightarrow>
               cls n = LogicItem \<and> definitionSymbol n = Some (instanceSymbol n))"
    if "n \<in> set (getChildren f item)" for n
  proof -
    from that obtain c where c: "c \<in> set (children d)" "type c \<notin> EXCLUDED_SYMS"
      and n: "n = childItem f item c"
      unfolding gc by auto
    show ?thesis
      unfolding n using c
      by (auto simp: childItem_def newModuleItem_def newLogicItem_def newInternalScopeItem_def)
  qed
  ultimately show ?thesis by blast
qed

theorem getChildren_by_type_witness:
  "cls ex_root \<noteq> LogicItem \<and> definitionSymbol ex_root = Some ex_Top \<and>
   getChildren ex_find ex_root =
     [ScopeItem ModuleItem (Some ex_root) ex_u1 (ex_find ''Leaf''),
      ScopeItem InternalScopeItem (Some ex_root) ex_blk (Some ex_blk),
      ScopeItem LogicItem (Some ex_root) ex_init (Some ex_init),
      ScopeItem ModuleItem (Some ex_root) ex_u3 (ex_find ''Missing'')] \<and>
   ex_find ''Leaf'' = Some ex_Leaf \<and> ex_find ''Missing'' = None"
  using getChildren_by_type [of ex_root ex_Top ex_find]
  by (simp add: getChildren_defs ex_defs)

text \<open>
  The claim as it was stated fails on the task \<^verbatim>\<open>init\<close> of the example: its item is a
  \<^verbatim>\<open>LogicItem\<close>, and the definition of that item is the task symbol.
\<close>

theorem leaf_definition_counterexample:
  "type ex_init \<noteq> ''block'' \<and> type ex_init \<noteq> ''instance'' \<and> type ex_init \<notin> EXCLUDED_SYMS \<and>
   map instanceSymbol (getChildren ex_find ex_root) = [ex_u1, ex_blk, ex_init, ex_u3] \<and>
   map cls (getChildren ex_find ex_root) = [ModuleItem, InternalScopeItem, LogicItem, ModuleItem] \<and>
   map definitionSymbol (getChildren ex_find ex_root) =
     [Some ex_Leaf, Some ex_blk, Some ex_init, None] \<and>
   Some ex_init \<noteq> None"
  by (simp add: getChildren_defs ex_defs)

text \<open>
  C2, as amended. For every scope item with a resolved definition that is not a
  \<^verbatim>\<open>LogicItem\<close>, the symbols of the items that \<^verbatim>\<open>getChildren\<close> returns are the children of
  the definition whose type is not \<^verbatim>\<open>enum\<close>, \<^verbatim>\<open>typedef\<close>, \<^verbatim>\<open>assert\<close> or \<^verbatim>\<open>function\<close>, one
  item for each, in the order of their declaration; no item stands for a child of an
  excluded type. A \<^verbatim>\<open>LogicItem\<close> has a resolved definition too, and \<^verbatim>\<open>getChildren\<close> returns
  nothing for it.
\<close>

theorem getChildren_declaration_order:
  assumes "definitionSymbol item = Some d"
  shows "map instanceSymbol (getChildren f item) =
           (if cls item = LogicItem then []
            else filter (\<lambda>child. type child \<notin> {''enum'', ''typedef'', ''assert'', ''function''})
                   (children d))"
  using assms by (cases "cls item") (auto simp: getChildren_defs comp_def intro: map_idI)

theorem getChildren_declaration_order_witness:
  "definitionSymbol ex_root = Some ex_Top \<and>
   map name (children ex_Top) = [''u1'', ''state_t'', ''blk'', ''init'', ''u3''] \<and>
   map type (children ex_Top) = [''instance'', ''typedef'', ''block'', ''task'', ''instance''] \<and>
   map instanceSymbol (getChildren ex_find ex_root) = [ex_u1, ex_blk, ex_init, ex_u3]"
  using getChildren_declaration_order [of ex_root ex_Top ex_find]
  by (simp add: getChildren_defs ex_defs)

text \<open>
  The claim as it was stated fails on the item of the task \<^verbatim>\<open>init\<close>: its definition is
  resolved and has a register as a child, and \<^verbatim>\<open>getChildren\<close> returns nothing.
\<close>

theorem leaf_expansion_counterexample:
  "ScopeItem LogicItem (Some ex_root) ex_init (Some ex_init) \<in> set (getChildren ex_find ex_root) \<and>
   definitionSymbol (ScopeItem LogicItem (Some ex_root) ex_init (Some ex_init)) = Some ex_init \<and>
   children ex_init = [ex_i] \<and> type ex_i \<notin> EXCLUDED_SYMS \<and>
   getChildren ex_find (ScopeItem LogicItem (Some ex_root) ex_init (Some ex_init)) = []"
  by (simp add: getChildren_defs ex_defs)

text \<open>
  C6. For every scope item whose definition is nothing, and for every \<^verbatim>\<open>LogicItem\<close>,
  \<^verbatim>\<open>getChildren\<close> returns the empty list. An instance whose \<^verbatim>\<open>typeRef\<close> the lookup does not find is no error: its item, with
  no definition, is among the children of its parent.
\<close>

theorem getChildren_unresolved:
  "(definitionSymbol item = None \<or> cls item = LogicItem \<longrightarrow> getChildren f item = []) \<and>
   (cls item \<noteq> LogicItem \<and> definitionSymbol item = Some d \<and> child \<in> set (children d) \<and>
    type child = ''instance'' \<and> f (case typeRef child of None \<Rightarrow> [] | Some t \<Rightarrow> t) = None
    \<longrightarrow> ScopeItem ModuleItem (Some item) child None \<in> set (getChildren f item) \<and>
        getChildren f (ScopeItem ModuleItem (Some item) child None) = [])"
  by (cases "cls item") (auto simp: getChildren_defs image_iff)

theorem getChildren_unresolved_witness:
  "definitionSymbol (ScopeItem ModuleItem (Some ex_root) ex_u3 None) = None \<and>
   getChildren ex_find (ScopeItem ModuleItem (Some ex_root) ex_u3 None) = [] \<and>
   cls ex_root \<noteq> LogicItem \<and> definitionSymbol ex_root = Some ex_Top \<and>
   ex_u3 \<in> set (children ex_Top) \<and> type ex_u3 = ''instance'' \<and> typeRef ex_u3 = Some ''Missing'' \<and>
   ex_find ''Missing'' = None \<and>
   ScopeItem ModuleItem (Some ex_root) ex_u3 None \<in> set (getChildren ex_find ex_root)"
  using getChildren_unresolved [of "ScopeItem ModuleItem (Some ex_root) ex_u3 None" ex_find ex_Top ex_u3]
    getChildren_unresolved [of ex_root ex_find ex_Top ex_u3]
  by (simp add: getChildren_defs ex_defs)

text \<open>
  C10. Every item that \<^verbatim>\<open>getChildren\<close> returns for a child that is neither a block nor an
  instance is a \<^verbatim>\<open>LogicItem\<close>; its definition is its own instance symbol, and its
  \<^verbatim>\<open>getChildren\<close> returns the empty list, whatever \<^verbatim>\<open>hasChildren\<close> says. \<^verbatim>\<open>hasChildren\<close> is
  true of it exactly when its symbol has a child of a type that is not excluded, and there
  are such items: \<^verbatim>\<open>hasChildren\<close> does not imply that the expansion is not empty.
\<close>

theorem LogicItem_no_children:
  "(n \<in> set (getChildren f item) \<and> type (instanceSymbol n) \<noteq> ''block'' \<and>
    type (instanceSymbol n) \<noteq> ''instance'' \<longrightarrow>
      cls n = LogicItem \<and> definitionSymbol n = Some (instanceSymbol n) \<and>
      getChildren f n = [] \<and>
      hasChildren n = (\<exists>c \<in> set (children (instanceSymbol n)). type c \<notin> EXCLUDED_SYMS)) \<and>
   (\<exists>g top leaf. leaf \<in> set (getChildren g top) \<and> type (instanceSymbol leaf) \<noteq> ''block'' \<and>
      type (instanceSymbol leaf) \<noteq> ''instance'' \<and> hasChildren leaf \<and> getChildren g leaf = [])"
proof -
  have "cls n = LogicItem \<and> definitionSymbol n = Some (instanceSymbol n) \<and>
      getChildren f n = [] \<and>
      hasChildren n = (\<exists>c \<in> set (children (instanceSymbol n)). type c \<notin> EXCLUDED_SYMS)"
    if n: "n \<in> set (getChildren f item)" and t: "type (instanceSymbol n) \<noteq> ''block''"
      "type (instanceSymbol n) \<noteq> ''instance''"
  proof -
    from n have "cls item \<noteq> LogicItem" by (auto simp: getChildren_LogicItem)
    moreover from n obtain d where "definitionSymbol item = Some d"
      by (cases "definitionSymbol item") (auto simp: getChildren_None)
    ultimately obtain c where c: "n = childItem f item c"
      using n by (auto simp: getChildren_Some)
    with t have "type c \<noteq> ''block''" "type c \<noteq> ''instance''"
      by simp_all
    with c have n': "n = newLogicItem (Some item) c"
      by (simp add: childItem_def)
    show ?thesis
      unfolding n'
      by (auto simp: newLogicItem_def getChildren_def hasChildren_def filter_empty_conv)
  qed
  moreover
  let ?leaf = "ScopeItem LogicItem (Some ex_root) ex_init (Some ex_init)"
  have "?leaf \<in> set (getChildren ex_find ex_root) \<and> type (instanceSymbol ?leaf) \<noteq> ''block'' \<and>
      type (instanceSymbol ?leaf) \<noteq> ''instance'' \<and> hasChildren ?leaf \<and> getChildren ex_find ?leaf = []"
    by (simp add: getChildren_defs hasChildren_def ex_defs)
  then have "\<exists>g top leaf. leaf \<in> set (getChildren g top) \<and> type (instanceSymbol leaf) \<noteq> ''block'' \<and>
      type (instanceSymbol leaf) \<noteq> ''instance'' \<and> hasChildren leaf \<and> getChildren g leaf = []"
    by blast
  ultimately show ?thesis by blast
qed

theorem LogicItem_no_children_witness:
  "ScopeItem LogicItem (Some ex_root) ex_init (Some ex_init) \<in> set (getChildren ex_find ex_root) \<and>
   type ex_init = ''task'' \<and>
   definitionSymbol (ScopeItem LogicItem (Some ex_root) ex_init (Some ex_init)) = Some ex_init \<and>
   hasChildren (ScopeItem LogicItem (Some ex_root) ex_init (Some ex_init)) \<and>
   getChildren ex_find (ScopeItem LogicItem (Some ex_root) ex_init (Some ex_init)) = []"
  using LogicItem_no_children
    [of "ScopeItem LogicItem (Some ex_root) ex_init (Some ex_init)" ex_find ex_root]
  by (simp add: getChildren_defs hasChildren_def ex_defs)

section \<open>Resolution of a path\<close>

lemma matchIndex_other: "c \<noteq> CHR ''['' \<Longrightarrow> matchIndex (c # cs) = None"
  by (simp add: matchIndex_def)

lemma stripIndices_text: "CHR ''['' \<notin> set seg \<Longrightarrow> stripIndices (seg @ s) = seg @ stripIndices s"
  by (induction seg) (auto simp: matchIndex_other)

lemma stripIndices_plain: "CHR ''['' \<notin> set s \<Longrightarrow> stripIndices s = s"
  using stripIndices_text [of s "[]"] by simp













lemma split_plain: "sep \<notin> set s \<Longrightarrow> split sep s = [s]"
  by (induction s) auto

lemma walkParts_append:
  "walkParts f t cur (xs @ ys) =
     (case walkParts f t cur xs of Inl e \<Rightarrow> Inl e | Inr cur' \<Rightarrow> walkParts f t cur' ys)"
  by (induction xs arbitrary: cur) (auto split: option.splits)

lemma walkParts_Inl_iff:
  "walkParts f t cur parts = Inl e \<longleftrightarrow>
     (\<exists>pre part post cur'.
        parts = pre @ part # post \<and> walkParts f t cur pre = Inr cur' \<and>
        find (\<lambda>child. name (instanceSymbol child) = part) (ProjectComponent_getChildren f t cur') = None \<and>
        e = CouldNotFind part (case cur' of None \<Rightarrow> ''top level'' | Some c \<Rightarrow> name (instanceSymbol c)))"
  (is "?L cur parts \<longleftrightarrow> ?R cur parts")
proof
  show "?L cur parts \<Longrightarrow> ?R cur parts"
  proof (induction parts arbitrary: cur)
    case Nil
    then show ?case by simp
  next
    case (Cons part parts)
    show ?case
    proof (cases "find (\<lambda>child. name (instanceSymbol child) = part) (ProjectComponent_getChildren f t cur)")
      case None
      with Cons.prems have "e = CouldNotFind part (case cur of None \<Rightarrow> ''top level'' | Some c \<Rightarrow> name (instanceSymbol c))"
        by simp
      with None show ?thesis
        by (intro exI [of _ "[]"] exI [of _ part] exI [of _ parts] exI [of _ cur]) simp
    next
      case (Some child)
      with Cons.prems have "walkParts f t (Some child) parts = Inl e" by simp
      from Cons.IH [OF this] obtain pre p post cur' where
        "parts = pre @ p # post" "walkParts f t (Some child) pre = Inr cur'"
        "find (\<lambda>child. name (instanceSymbol child) = p) (ProjectComponent_getChildren f t cur') = None"
        "e = CouldNotFind p (case cur' of None \<Rightarrow> ''top level'' | Some c \<Rightarrow> name (instanceSymbol c))"
        by blast
      with Some show ?thesis
        by (intro exI [of _ "part # pre"] exI [of _ p] exI [of _ post] exI [of _ cur']) simp
    qed
  qed
next
  assume "?R cur parts"
  then show "?L cur parts"
    by (auto simp: walkParts_append)
qed

lemma find_first:
  "xs = ys @ x # zs \<Longrightarrow> P x \<Longrightarrow> \<forall>y \<in> set ys. \<not> P y \<Longrightarrow> find P xs = Some x"
  by (induction ys arbitrary: xs) auto

lemmas setInstance_defs = setInstance_def ProjectComponent_getChildren_def matchIndex_def
  isDigit_def





text \<open>
  C8, as amended. For every top symbol and path, the parts of the stripped path are walked
  in order: the first part is looked for in the list holding the root item alone, each
  later part among the children of the item found before it, and the first item whose
  symbol has exactly the part as its name is taken. The walk fails exactly when some part
  has no such item after the parts before it were found; then nothing is revealed and the
  error names that part and the name of the item whose children were searched, or the words
  \<^verbatim>\<open>top level\<close> when it is the first part that was not found.
\<close>

theorem setInstance_could_not_find:
  "(setInstance f (Some t) (PathString p) = Inl e \<longleftrightarrow>
      (\<exists>pre part post cur.
         split CHR ''.'' (stripIndices p) = pre @ part # post \<and>
         walkParts f (Some t) None pre = Inr cur \<and>
         (\<forall>child \<in> set (ProjectComponent_getChildren f (Some t) cur).
            name (instanceSymbol child) \<noteq> part) \<and>
         e = CouldNotFind part
               (case cur of None \<Rightarrow> ''top level'' | Some c \<Rightarrow> name (instanceSymbol c)))) \<and>
   (ProjectComponent_getChildren f (Some t) cur0 = before @ child # after \<and>
    name (instanceSymbol child) = part0 \<and>
    (\<forall>b \<in> set before. name (instanceSymbol b) \<noteq> part0) \<longrightarrow>
      walkParts f (Some t) cur0 (part0 # parts) = walkParts f (Some t) (Some child) parts) \<and>
   ProjectComponent_getChildren f (Some t) None = [newRootItem t]"
proof (intro conjI impI)
  show "setInstance f (Some t) (PathString p) = Inl e \<longleftrightarrow>
      (\<exists>pre part post cur.
         split CHR ''.'' (stripIndices p) = pre @ part # post \<and>
         walkParts f (Some t) None pre = Inr cur \<and>
         (\<forall>child \<in> set (ProjectComponent_getChildren f (Some t) cur).
            name (instanceSymbol child) \<noteq> part) \<and>
         e = CouldNotFind part
               (case cur of None \<Rightarrow> ''top level'' | Some c \<Rightarrow> name (instanceSymbol c)))"
    by (simp add: setInstance_def walkParts_Inl_iff find_None_iff Ball_def)
next
  assume "ProjectComponent_getChildren f (Some t) cur0 = before @ child # after \<and>
    name (instanceSymbol child) = part0 \<and>
    (\<forall>b \<in> set before. name (instanceSymbol b) \<noteq> part0)"
  then have "find (\<lambda>c. name (instanceSymbol c) = part0)
      (ProjectComponent_getChildren f (Some t) cur0) = Some child"
    by (intro find_first [of _ before child after]) auto
  then show "walkParts f (Some t) cur0 (part0 # parts) = walkParts f (Some t) (Some child) parts"
    by simp
next
  show "ProjectComponent_getChildren f (Some t) None = [newRootItem t]"
    by (simp add: ProjectComponent_getChildren_def)
qed

theorem setInstance_could_not_find_witness:
  "setInstance ex_find (Some ex_Top) (PathString ''Top.blk.nope.x'') =
     Inl (CouldNotFind ''nope'' ''blk'') \<and>
   split CHR ''.'' (stripIndices ''Top.blk.nope.x'') = [''Top'', ''blk''] @ ''nope'' # [''x''] \<and>
   walkParts ex_find (Some ex_Top) None [''Top'', ''blk''] =
     Inr (Some (ScopeItem InternalScopeItem (Some ex_root) ex_blk (Some ex_blk))) \<and>
   ProjectComponent_getChildren ex_find (Some ex_Top)
       (Some (ScopeItem InternalScopeItem (Some ex_root) ex_blk (Some ex_blk))) =
     [ScopeItem ModuleItem (Some (ScopeItem InternalScopeItem (Some ex_root) ex_blk (Some ex_blk)))
        ex_u2 (Some ex_Leaf)] \<and>
   errorMessage (CouldNotFind ''nope'' ''blk'') = ''Could not find instance nope in blk''"
  using setInstance_could_not_find [of ex_find ex_Top "''Top.blk.nope.x''"
      "CouldNotFind ''nope'' ''blk''" None "[]" ex_root "[]" "''Top''" "[]"]
  by (simp add: setInstance_defs getChildren_defs ex_defs errorMessage_def)

text \<open>
  The claim as it was stated fails when the first part is not found: no item was searched,
  and the error names the words \<^verbatim>\<open>top level\<close>, not the name of the top symbol.
\<close>

theorem top_level_counterexample:
  "name ex_Top = ''Top'' \<and>
   setInstance ex_find (Some ex_Top) (PathString ''nope.x'') =
     Inl (CouldNotFind ''nope'' ''top level'') \<and>
   errorMessage (CouldNotFind ''nope'' ''top level'') = ''Could not find instance nope in top level'' \<and>
   setInstance ex_find (Some ex_Top) (PathString ''u1'') = Inl (CouldNotFind ''u1'' ''top level'') \<and>
   setInstance ex_find (Some ex_Top) (PathString ''Top.u1'') =
     Inr (Some (ScopeItem ModuleItem (Some ex_root) ex_u1 (Some ex_Leaf)))"
  by (simp add: setInstance_defs getChildren_defs ex_defs errorMessage_def)

text \<open>
  C9, as amended. The empty path has one part, the empty string, which is looked for as
  the name of the root item: for every top symbol, resolving the empty path gives the root
  item when the name of the top symbol is empty, and otherwise fails for the part
  \<^verbatim>\<open>''\<close> at \<^verbatim>\<open>top level\<close>. The root item is what resolving the name of the top symbol
  gives, for a name without a dot and without an opening bracket.
\<close>

theorem setInstance_root:
  "setInstance f (Some t) (PathString []) =
     (if name t = [] then Inr (Some (newRootItem t)) else Inl (CouldNotFind [] ''top level'')) \<and>
   (CHR ''.'' \<notin> set (name t) \<and> CHR ''['' \<notin> set (name t) \<longrightarrow>
      setInstance f (Some t) (PathString (name t)) = Inr (Some (newRootItem t)))"
  by (auto simp: setInstance_def ProjectComponent_getChildren_def newRootItem_def
      stripIndices_plain split_plain)

theorem setInstance_root_witness:
  "CHR ''.'' \<notin> set (name ex_Top) \<and> CHR ''['' \<notin> set (name ex_Top) \<and> name ex_Top = ''Top'' \<and>
   setInstance ex_find (Some ex_Top) (PathString ''Top'') = Inr (Some (newRootItem ex_Top))"
  using setInstance_root [of ex_find ex_Top]
  by (simp add: ex_defs)

text \<open>
  The claim as it was stated fails on the example: the empty path is not resolved to the
  root item.
\<close>

theorem empty_path_counterexample:
  "setInstance ex_find (Some ex_Top) (PathString []) = Inl (CouldNotFind [] ''top level'') \<and>
   split CHR ''.'' (stripIndices []) = [[]]"
  by (simp add: setInstance_defs getChildren_defs ex_defs)

section \<open>The index after a build\<close>

lemma join_snoc: "xs \<noteq> [] \<Longrightarrow> join sep (xs @ [x]) = join sep xs @ sep @ x"
  by (induction sep xs rule: join.induct) auto

lemma rootDown_not_Nil: "rootDown item \<noteq> []"
  by (induction item rule: rootDown.induct) auto

lemma getPath_spec: "getPath item = spec_hierarchicalPath item"
  unfolding spec_hierarchicalPath_def
  by (induction item rule: getPath.induct) (simp_all add: join_snoc rootDown_not_Nil)

lemma revealPath_visit:
  "revealPath (modules (visit st x)) d p =
     (if cls x = ModuleItem \<and> definitionSymbol x = Some d \<and> getPath x = p then Some x
      else revealPath (modules st) d p)"
  by (auto simp: visit_def instanceof_InstanceItem_def revealPath_def DefaultMap_get_def addInstance_def Let_def
      split: option.splits)

lemma revealPath_foldl_visit:
  "revealPath (modules (foldl visit st xs)) d p =
     (case find (\<lambda>i. cls i = ModuleItem \<and> definitionSymbol i = Some d \<and> getPath i = p) (rev xs) of
        Some i \<Rightarrow> Some i
      | None \<Rightarrow> revealPath (modules st) d p)"
  by (induction xs rule: rev_induct) (simp_all add: revealPath_visit)

lemma dom_modules_visit:
  "dom (modules (visit st x)) =
     dom (modules st) \<union> (if cls x = ModuleItem then set_option (definitionSymbol x) else {})"
  by (auto simp: visit_def instanceof_InstanceItem_def Let_def split: option.splits if_splits)

lemma dom_modules_foldl_visit:
  "dom (modules (foldl visit st xs)) =
     dom (modules st) \<union> {d. \<exists>i \<in> set xs. cls i = ModuleItem \<and> definitionSymbol i = Some d}"
  by (induction xs rule: rev_induct) (auto simp: dom_modules_visit)

lemma modules_indexItems: "modules (indexItems old visited) =
    modules (foldl visit \<lparr>modules = Map.empty, pct = 0, lastReport = 0,
                 reported = [(0, Some ''Starting...'')]\<rparr> visited)"
  by (simp add: indexItems_def Let_def)

lemma find_SomeD: "find P xs = Some x \<Longrightarrow> x \<in> set xs \<and> P x"
  by (induction xs) (auto split: if_splits)

lemma find_last_unique:
  assumes "x \<in> set xs" "P x" "\<forall>y \<in> set xs. P y \<longrightarrow> y = x"
  shows "find P (rev xs) = Some x"
proof -
  from assms(1,2) obtain y where "find P (rev xs) = Some y"
    by (cases "find P (rev xs)") (auto simp: find_None_iff)
  moreover from this have "y \<in> set xs" "P y"
    by (auto dest: find_SomeD)
  ultimately show ?thesis using assms(3) by auto
qed

lemma revealPath_indexItems:
  "revealPath (modules (indexItems old visited)) d p =
     find (\<lambda>i. cls i = ModuleItem \<and> definitionSymbol i = Some d \<and> getPath i = p) (rev visited)"
  unfolding modules_indexItems revealPath_foldl_visit
  by (simp add: revealPath_def DefaultMap_get_def split: option.splits)

lemma dom_indexItems:
  "dom (modules (indexItems old visited)) =
     {d. \<exists>i \<in> set visited. cls i = ModuleItem \<and> definitionSymbol i = Some d}"
  unfolding modules_indexItems dom_modules_foldl_visit by simp

lemma recorded_indexed:
  assumes "distinct (map getPath (filter recorded visited))"
  shows "(\<exists>d. revealPath (modules (indexItems old visited)) d (getPath item) = Some item) =
         (item \<in> set visited \<and> recorded item)"
proof
  assume "\<exists>d. revealPath (modules (indexItems old visited)) d (getPath item) = Some item"
  then obtain d where "find (\<lambda>i. cls i = ModuleItem \<and> definitionSymbol i = Some d \<and>
      getPath i = getPath item) (rev visited) = Some item"
    unfolding revealPath_indexItems ..
  then have "item \<in> set (rev visited)" "cls item = ModuleItem" "definitionSymbol item = Some d"
    by (auto dest: find_SomeD)
  then show "item \<in> set visited \<and> recorded item"
    by (simp add: recorded_def)
next
  assume a: "item \<in> set visited \<and> recorded item"
  then obtain d where d: "definitionSymbol item = Some d"
    by (auto simp: recorded_def)
  have inj: "inj_on getPath {i \<in> set visited. recorded i}"
    using assms by (simp add: distinct_map)
  have "find (\<lambda>i. cls i = ModuleItem \<and> definitionSymbol i = Some d \<and>
      getPath i = getPath item) (rev visited) = Some item"
  proof (rule find_last_unique)
    show "item \<in> set visited" using a by simp
    show "cls item = ModuleItem \<and> definitionSymbol item = Some d \<and> getPath item = getPath item"
      using a d by (simp add: recorded_def)
    show "\<forall>y \<in> set visited. cls y = ModuleItem \<and> definitionSymbol y = Some d \<and>
        getPath y = getPath item \<longrightarrow> y = item"
      using inj a by (auto simp: inj_on_def recorded_def)
  qed
  then show "\<exists>d. revealPath (modules (indexItems old visited)) d (getPath item) = Some item"
    unfolding revealPath_indexItems ..
qed

lemma ex_Top_visited:
  "preOrderTraversal ex_ws [] (newRootItem ex_Top) =
     [ex_root, ex_item_u1, ScopeItem LogicItem (Some ex_item_u1) ex_clk (Some ex_clk),
      ex_item_blk, ex_item_u2, ScopeItem LogicItem (Some ex_item_u2) ex_clk (Some ex_clk),
      ex_item_init, ex_item_u3]"
  by code_simp

lemma ex_item_paths:
  "getPath ex_root = ''Top''" "getPath ex_item_u1 = ''Top.u1''" "getPath ex_item_blk = ''Top.blk''"
  "getPath ex_item_u2 = ''Top.blk.u2''" "getPath ex_item_init = ''Top.init''"
  "getPath ex_item_u3 = ''Top.u3''"
  "getPath (ScopeItem LogicItem (Some ex_item_u1) ex_clk (Some ex_clk)) = ''Top.u1.clk''"
  "getPath (ScopeItem LogicItem (Some ex_item_u2) ex_clk (Some ex_clk)) = ''Top.blk.u2.clk''"
  by (simp_all add: ex_item_defs ex_Top_def ex_u1_def ex_u2_def ex_u3_def ex_blk_def ex_init_def)

lemma ex_item_recorded:
  "\<not> recorded ex_root" "recorded ex_item_u1" "\<not> recorded ex_item_blk" "recorded ex_item_u2"
  "\<not> recorded ex_item_init" "\<not> recorded ex_item_u3"
  "\<not> recorded (ScopeItem LogicItem p i d)"
  by (simp_all add: recorded_def ex_item_defs)

lemma ex_item_fields:
  "cls ex_root = RootItem" "cls ex_item_u1 = ModuleItem" "cls ex_item_blk = InternalScopeItem"
  "cls ex_item_u2 = ModuleItem" "cls ex_item_init = LogicItem" "cls ex_item_u3 = ModuleItem"
  "definitionSymbol ex_item_u1 = Some ex_Leaf" "definitionSymbol ex_item_u2 = Some ex_Leaf"
  "definitionSymbol ex_item_u3 = None"
  by (simp_all add: ex_item_defs)

lemma ex_Dup_visited:
  "preOrderTraversal ex_dup_ws [] (newRootItem ex_Dup) =
     [newRootItem ex_Dup,
      ex_dup_first, ScopeItem LogicItem (Some ex_dup_first) ex_clk (Some ex_clk),
      ex_dup_second, ScopeItem LogicItem (Some ex_dup_second) ex_clk (Some ex_clk)]"
  by code_simp

text \<open>
  C3, as amended. After \<^verbatim>\<open>indexTop\<close>, whatever the index held before, it maps a definition
  symbol and a path to the last visited item of class \<^verbatim>\<open>ModuleItem\<close> that has this
  definition and this path, where the path of an item is the names of the instance symbols
  from the root down to it, joined with dots; its keys are the definitions of the visited
  items of that class, so that nothing is recorded for an instance whose definition was not
  found. When no two of these visited items have the same path, the items recorded are
  exactly these items.
\<close>

theorem indexItems_records:
  "revealPath (modules (indexItems old visited)) d p =
     find (\<lambda>i. cls i = ModuleItem \<and> definitionSymbol i = Some d \<and> getPath i = p) (rev visited) \<and>
   dom (modules (indexItems old visited)) =
     {d. \<exists>i \<in> set visited. cls i = ModuleItem \<and> definitionSymbol i = Some d} \<and>
   getPath item = spec_hierarchicalPath item \<and>
   (distinct (map getPath (filter recorded visited)) \<longrightarrow>
      (\<exists>d. revealPath (modules (indexItems old visited)) d (getPath item) = Some item) =
      (item \<in> set visited \<and> recorded item))"
  using revealPath_indexItems [of old visited d p] dom_indexItems [of old visited]
    getPath_spec [of item] recorded_indexed [of visited old item]
  by blast

theorem indexItems_records_witness:
  "distinct (map getPath (filter recorded (preOrderTraversal ex_ws [] (newRootItem ex_Top)))) \<and>
   ex_item_u1 \<in> set (preOrderTraversal ex_ws [] (newRootItem ex_Top)) \<and>
   recorded ex_item_u1 \<and>
   getPath ex_item_u1 = ''Top.u1'' \<and>
   revealPath (modules (indexTop ex_ws Map.empty ex_Top)) ex_Leaf ''Top.u1'' = Some ex_item_u1 \<and>
   revealPath (modules (indexTop ex_ws Map.empty ex_Top)) ex_Leaf ''Top.blk.u2'' = Some ex_item_u2 \<and>
   ex_item_u3 \<in> set (preOrderTraversal ex_ws [] (newRootItem ex_Top)) \<and>
   definitionSymbol ex_item_u3 = None \<and>
   revealPath (modules (indexTop ex_ws Map.empty ex_Top)) ex_Leaf ''Top.u3'' = None \<and>
   dom (modules (indexTop ex_ws Map.empty ex_Top)) = {ex_Leaf}"
proof -
  let ?v = "preOrderTraversal ex_ws [] (newRootItem ex_Top)"
  have d: "distinct (map getPath (filter recorded ?v))"
    unfolding ex_Top_visited by (simp add: ex_item_recorded ex_item_paths)
  have m: "ex_item_u1 \<in> set ?v" "ex_item_u3 \<in> set ?v"
    unfolding ex_Top_visited by simp_all
  have r1: "revealPath (modules (indexTop ex_ws Map.empty ex_Top)) ex_Leaf ''Top.u1'' = Some ex_item_u1"
    unfolding indexTop_def
      indexItems_records [of Map.empty ?v ex_Leaf "''Top.u1''" ex_item_u1, THEN conjunct1]
    unfolding ex_Top_visited by (simp add: ex_item_fields ex_item_paths)
  have r2: "revealPath (modules (indexTop ex_ws Map.empty ex_Top)) ex_Leaf ''Top.blk.u2'' = Some ex_item_u2"
    unfolding indexTop_def
      indexItems_records [of Map.empty ?v ex_Leaf "''Top.blk.u2''" ex_item_u1, THEN conjunct1]
    unfolding ex_Top_visited by (simp add: ex_item_fields ex_item_paths)
  have r3: "revealPath (modules (indexTop ex_ws Map.empty ex_Top)) ex_Leaf ''Top.u3'' = None"
    unfolding indexTop_def
      indexItems_records [of Map.empty ?v ex_Leaf "''Top.u3''" ex_item_u1, THEN conjunct1]
    unfolding ex_Top_visited by (simp add: ex_item_fields ex_item_paths)
  have dm: "dom (modules (indexTop ex_ws Map.empty ex_Top)) = {ex_Leaf}"
    unfolding indexTop_def
      indexItems_records [of Map.empty ?v ex_Leaf "''Top.u3''" ex_item_u1, THEN conjunct2, THEN conjunct1]
    unfolding ex_Top_visited by (simp add: ex_item_fields)
  show ?thesis
    by (intro conjI d m r1 r2 r3 dm ex_item_recorded ex_item_paths ex_item_fields)
qed

text \<open>
  The claim as it was stated fails when two instances of a module have the same name in
  one scope: both are visited, both have the path \<^verbatim>\<open>Dup.u\<close>, and the index holds the
  second one only.
\<close>

theorem same_path_counterexample:
  "preOrderTraversal ex_dup_ws [] (newRootItem ex_Dup) =
     [newRootItem ex_Dup,
      ex_dup_first, ScopeItem LogicItem (Some ex_dup_first) ex_clk (Some ex_clk),
      ex_dup_second, ScopeItem LogicItem (Some ex_dup_second) ex_clk (Some ex_clk)] \<and>
   cls ex_dup_first = ModuleItem \<and> definitionSymbol ex_dup_first = Some ex_Leaf \<and>
   cls ex_dup_second = ModuleItem \<and> definitionSymbol ex_dup_second = Some ex_Leaf \<and>
   getPath ex_dup_first = ''Dup.u'' \<and> getPath ex_dup_second = ''Dup.u'' \<and>
   ex_dup_first \<noteq> ex_dup_second \<and>
   revealPath (modules (indexTop ex_dup_ws Map.empty ex_Dup)) ex_Leaf ''Dup.u'' = Some ex_dup_second \<and>
   dom (DefaultMap_get (modules (indexTop ex_dup_ws Map.empty ex_Dup)) ex_Leaf) = {''Dup.u''} \<and>
   dom (modules (indexTop ex_dup_ws Map.empty ex_Dup)) = {ex_Leaf} \<and>
   revealPath (modules (indexItems Map.empty [ex_dup_first, ex_dup_second])) ex_Leaf ''Dup.u'' =
     Some ex_dup_second \<and>
   dom (DefaultMap_get (modules (indexItems Map.empty [ex_dup_first, ex_dup_second])) ex_Leaf) =
     {''Dup.u''}"
  unfolding indexTop_def ex_Dup_visited
  by (simp add: indexItems_def visit_def instanceof_InstanceItem_def Let_def revealPath_def
      DefaultMap_get_def addInstance_def newRootItem_def ex_Dup_def ex_clk_def
      ex_dup_first_def ex_dup_second_def)

section \<open>Progress reports\<close>

lemma visit_not_recorded: "\<not> recorded x \<Longrightarrow> visit st x = st"
  by (auto simp: visit_def instanceof_InstanceItem_def recorded_def split: option.splits)

lemma foldl_visit_filter: "foldl visit st xs = foldl visit st (filter recorded xs)"
  by (induction xs arbitrary: st) (simp_all add: visit_not_recorded)

lemma visit_recorded:
  assumes "recorded x"
  shows "pct (visit st x) = pct st + (95 - pct st) * (1 / 1000)"
    and "lastReport (visit st x) = max (lastReport st) \<lfloor>pct st + (95 - pct st) * (1 / 1000)\<rfloor>"
    and "reported (visit st x) =
           (if \<lfloor>pct st + (95 - pct st) * (1 / 1000)\<rfloor> > lastReport st
            then reported st @ [(\<lfloor>pct st + (95 - pct st) * (1 / 1000)\<rfloor> - lastReport st, None)]
            else reported st)"
  using assms by (auto simp: visit_def instanceof_InstanceItem_def recorded_def Let_def split: option.splits)

lemma advance_bounds:
  fixes p :: rat
  assumes "0 \<le> p" "p < 95"
  shows "p \<le> p + (95 - p) * (1 / 1000)" and "p + (95 - p) * (1 / 1000) < 95"
  using assms by (simp_all add: field_simps)

lemma progress_inv_visit:
  assumes "progress_inv st"
  shows "progress_inv (visit st x)"
proof (cases "recorded x")
  case False
  then show ?thesis using assms by (simp add: visit_not_recorded)
next
  case True
  let ?p = "pct st + (95 - pct st) * (1 / 1000)"
  from assms have p: "0 \<le> pct st" "pct st < 95" and l: "lastReport st = \<lfloor>pct st\<rfloor>"
    and s: "sum_list (map fst (reported st)) = lastReport st"
    and n: "list_all (\<lambda>r. 0 \<le> fst r) (reported st)"
    by (simp_all add: progress_inv_def)
  have le: "pct st \<le> ?p" and lt: "?p < 95" using advance_bounds [OF p] by simp_all
  have fl: "lastReport st \<le> \<lfloor>?p\<rfloor>" unfolding l using le by (rule floor_mono)
  show ?thesis
    unfolding progress_inv_def visit_recorded [OF True]
    using p le lt fl s n by (auto simp: max_def)
qed

lemma progress_inv_foldl: "progress_inv st \<Longrightarrow> progress_inv (foldl visit st xs)"
  by (induction xs arbitrary: st) (simp_all add: progress_inv_visit)

lemma progress_inv_start:
  "progress_inv \<lparr>modules = m, pct = 0, lastReport = 0, reported = [(0, msg)]\<rparr>"
  by (simp add: progress_inv_def)

lemma lastReport_visit_mono: "progress_inv st \<Longrightarrow> lastReport st \<le> lastReport (visit st x)"
  by (cases "recorded x") (simp_all add: visit_not_recorded visit_recorded)

lemma lastReport_foldl_mono: "progress_inv st \<Longrightarrow> lastReport st \<le> lastReport (foldl visit st xs)"
proof (induction xs arbitrary: st)
  case Nil
  show ?case by simp
next
  case (Cons x xs)
  have "lastReport st \<le> lastReport (visit st x)"
    using Cons.prems by (rule lastReport_visit_mono)
  also have "\<dots> \<le> lastReport (foldl visit (visit st x) xs)"
    using Cons.prems by (intro Cons.IH progress_inv_visit)
  finally show ?case by simp
qed

lemma reported_unchanged:
  assumes "progress_inv st" "lastReport (foldl visit st xs) = lastReport st"
  shows "reported (foldl visit st xs) = reported st"
  using assms
proof (induction xs arbitrary: st)
  case Nil
  show ?case by simp
next
  case (Cons x xs)
  have inv: "progress_inv (visit st x)" using Cons.prems(1) by (rule progress_inv_visit)
  have "lastReport st \<le> lastReport (visit st x)"
    using Cons.prems(1) by (rule lastReport_visit_mono)
  moreover have "lastReport (visit st x) \<le> lastReport (foldl visit (visit st x) xs)"
    using inv by (rule lastReport_foldl_mono)
  ultimately have eq: "lastReport (visit st x) = lastReport st"
    and eq': "lastReport (foldl visit (visit st x) xs) = lastReport (visit st x)"
    using Cons.prems(2) by simp_all
  have "reported (visit st x) = reported st"
  proof (cases "recorded x")
    case True
    with eq show ?thesis by (auto simp: visit_recorded max_def split: if_splits)
  qed (simp add: visit_not_recorded)
  with Cons.IH [OF inv eq'] show ?case by simp
qed

lemma pct_foldl_visit:
  "pct (foldl visit st xs) = 95 - (95 - pct st) * (999 / 1000) ^ length (filter recorded xs)"
proof (induction xs arbitrary: st)
  case Nil
  show ?case by simp
next
  case (Cons x xs)
  show ?case
  proof (cases "recorded x")
    case True
    then show ?thesis by (simp add: Cons.IH visit_recorded field_simps)
  qed (simp add: Cons.IH visit_not_recorded)
qed

lemma sum_list_nonneg_all: "list_all (\<lambda>i. 0 \<le> i) xs \<Longrightarrow> (0::int) \<le> sum_list xs"
  by (induction xs) auto

lemma cumulative_append:
  "list_all (\<lambda>i. 0 \<le> i) xs \<Longrightarrow> acc + sum_list xs \<le> 100 \<Longrightarrow>
   cumulative acc (xs @ ys) = cumulative acc xs @ cumulative (acc + sum_list xs) ys"
proof (induction xs arbitrary: acc)
  case Nil
  show ?case by simp
next
  case (Cons x xs)
  have "0 \<le> sum_list xs" using Cons.prems(1) by (intro sum_list_nonneg_all) simp
  with Cons.prems(2) have x: "min 100 (acc + x) = acc + x" by simp
  have "cumulative (acc + x) (xs @ ys) =
      cumulative (acc + x) xs @ cumulative (acc + x + sum_list xs) ys"
    using Cons.prems by (intro Cons.IH) (simp_all add: add.assoc)
  then show ?case by (simp add: x add.assoc)
qed

lemma cumulative_bounds:
  "list_all (\<lambda>i. 0 \<le> i) xs \<Longrightarrow> acc + sum_list xs \<le> 100 \<Longrightarrow> v \<in> set (cumulative acc xs) \<Longrightarrow>
   acc \<le> v \<and> v \<le> acc + sum_list xs"
proof (induction xs arbitrary: acc)
  case Nil
  then show ?case by simp
next
  case (Cons x xs)
  have s: "0 \<le> sum_list xs" using Cons.prems(1) by (intro sum_list_nonneg_all) simp
  with Cons.prems(2) have x: "min 100 (acc + x) = acc + x" by simp
  have x0: "0 \<le> x" using Cons.prems(1) by simp
  show ?case
  proof (cases "v = acc + x")
    case True
    with s x0 show ?thesis by simp
  next
    case False
    with Cons.prems(3) have "v \<in> set (cumulative (acc + x) xs)" by (simp add: x)
    moreover have "list_all (\<lambda>i. 0 \<le> i) xs" "acc + x + sum_list xs \<le> 100"
      using Cons.prems(1,2) by (simp_all add: add.assoc)
    ultimately have "acc + x \<le> v \<and> v \<le> acc + x + sum_list xs" by (rule Cons.IH [rotated 2])
    with x0 show ?thesis by simp
  qed
qed

lemma cumulative_sorted:
  "list_all (\<lambda>i. 0 \<le> i) xs \<Longrightarrow> acc + sum_list xs \<le> 100 \<Longrightarrow> sorted (cumulative acc xs)"
proof (induction xs arbitrary: acc)
  case Nil
  show ?case by simp
next
  case (Cons x xs)
  have s: "0 \<le> sum_list xs" using Cons.prems(1) by (intro sum_list_nonneg_all) simp
  with Cons.prems(2) have x: "min 100 (acc + x) = acc + x" by simp
  have h: "list_all (\<lambda>i. 0 \<le> i) xs" "acc + x + sum_list xs \<le> 100"
    using Cons.prems by (simp_all add: add.assoc)
  then have "sorted (cumulative (acc + x) xs)" by (rule Cons.IH)
  moreover have "\<forall>v \<in> set (cumulative (acc + x) xs). acc + x \<le> v"
    using cumulative_bounds [OF h] by blast
  ultimately show ?case by (simp add: x)
qed

lemma estimate_few: "n \<le> 10 \<Longrightarrow> \<lfloor>95 - 95 * (999 / 1000) ^ n :: rat\<rfloor> = 0"
proof -
  assume "n \<le> 10"
  then have "((999 / 1000) :: rat) ^ 10 \<le> (999 / 1000) ^ n"
    by (intro power_decreasing) simp_all
  moreover have "(94 / 95 :: rat) < (999 / 1000) ^ 10" by (simp add: power_divide)
  moreover have "((999 / 1000) :: rat) ^ n \<le> 1" by (simp add: power_le_one)
  ultimately have "0 \<le> (95 - 95 * (999 / 1000) ^ n :: rat)" "(95 - 95 * (999 / 1000) ^ n :: rat) < 1"
    by linarith+
  then show ?thesis by (simp add: floor_eq_iff)
qed

lemma estimate_11: "\<lfloor>95 - 95 * (999 / 1000) ^ 11 :: rat\<rfloor> = 1"
  by (simp add: floor_eq_iff power_divide)

lemma indexItems_reported:
  "reported (indexItems old visited) =
     reported (foldl visit \<lparr>modules = Map.empty, pct = 0, lastReport = 0,
                 reported = [(0, Some ''Starting...'')]\<rparr> visited) @ [(100, Some ''Done'')]"
  by (simp add: indexItems_def Let_def)

lemma lastReport_estimate:
  assumes "progress_inv st" "pct st = 0"
  shows "lastReport (foldl visit st xs) =
           \<lfloor>95 - 95 * (999 / 1000) ^ length (filter recorded xs) :: rat\<rfloor>"
proof -
  have "progress_inv (foldl visit st xs)" using assms(1) by (rule progress_inv_foldl)
  then have "lastReport (foldl visit st xs) = \<lfloor>pct (foldl visit st xs)\<rfloor>"
    by (simp add: progress_inv_def)
  then show ?thesis by (simp add: pct_foldl_visit assms(2))
qed

lemma few_reported:
  assumes "length (filter recorded visited) \<le> 10"
  shows "reported (indexItems old visited) = [(0, Some ''Starting...''), (100, Some ''Done'')]"
proof -
  let ?st = "\<lparr>modules = Map.empty, pct = 0, lastReport = 0,
               reported = [(0, Some ''Starting...'')]\<rparr>"
  have inv: "progress_inv ?st" by (rule progress_inv_start)
  have "lastReport (foldl visit ?st visited) = 0"
    using lastReport_estimate [OF inv, of visited] estimate_few [OF assms] by simp
  then have "reported (foldl visit ?st visited) = reported ?st"
    using inv by (intro reported_unchanged) simp_all
  then show ?thesis by (simp add: indexItems_reported)
qed

lemma wide_recorded:
  "filter recorded (preOrderTraversal ex_wide_ws [] (newRootItem ex_Wide)) =
     map (\<lambda>c. ScopeItem ModuleItem (Some (newRootItem ex_Wide)) c (Some ex_Leaf)) (children ex_Wide)"
  by code_simp

lemma ex_wide_reported:
  "length ex_wide_items = 11 \<and> list_all recorded ex_wide_items \<and>
   map fst (reported (indexItems Map.empty ex_wide_items)) = [0, 1, 100] \<and>
   map fst (reported (indexTop ex_wide_ws Map.empty ex_Wide)) = [0, 1, 100]"
proof -
  let ?st = "\<lparr>modules = Map.empty, pct = 0, lastReport = 0,
               reported = [(0, Some ''Starting...'')]\<rparr>"
  let ?item = "\<lambda>c. ScopeItem ModuleItem (Some (newRootItem ex_Wide)) c (Some ex_Leaf)"
  let ?xs = "map ?item (butlast (children ex_Wide))"
  let ?x = "?item (last (children ex_Wide))"
  have inv: "progress_inv ?st" by (rule progress_inv_start)
  have split: "map ?item (children ex_Wide) = ?xs @ [?x]"
    by (simp add: ex_Wide_def)
  have rec: "list_all recorded ?xs" "recorded ?x"
    by (simp_all add: recorded_def list_all_iff)
  then have len: "length (filter recorded ?xs) = 10"
    by (simp add: list_all_iff ex_Wide_def)
  have l10: "lastReport (foldl visit ?st ?xs) = 0"
    using lastReport_estimate [OF inv, of ?xs] estimate_few [of 10] unfolding len by simp
  then have r10: "reported (foldl visit ?st ?xs) = [(0, Some ''Starting...'')]"
    using inv reported_unchanged [of ?st ?xs] by simp
  have p10: "pct (foldl visit ?st ?xs) = 95 - 95 * (999 / 1000) ^ 10"
    unfolding pct_foldl_visit len by simp
  have "pct (foldl visit ?st ?xs) + (95 - pct (foldl visit ?st ?xs)) * (1 / 1000)
      = 95 - 95 * (999 / 1000) ^ 11"
    unfolding p10 by (simp add: field_simps)
  then have "\<lfloor>pct (foldl visit ?st ?xs) + (95 - pct (foldl visit ?st ?xs)) * (1 / 1000)\<rfloor> = 1"
    using estimate_11 by simp
  then have "reported (visit (foldl visit ?st ?xs) ?x) = [(0, Some ''Starting...''), (1, None)]"
    using rec(2) by (simp add: visit_recorded l10 r10)
  then have both: "reported (foldl visit ?st (?xs @ [?x])) = [(0, Some ''Starting...''), (1, None)]"
    by simp
  have items: "ex_wide_items = ?xs @ [?x]"
    unfolding ex_wide_items_def by (rule split)
  have direct: "reported (indexItems Map.empty ex_wide_items) =
      [(0, Some ''Starting...''), (1, None), (100, Some ''Done'')]"
    unfolding indexItems_reported items using both by simp
  have all: "length ex_wide_items = 11" "list_all recorded ex_wide_items"
    unfolding items using rec by (simp_all add: ex_Wide_def)
  from both have "reported (foldl visit ?st (?xs @ [?x])) = [(0, Some ''Starting...''), (1, None)]" .
  then have "reported (foldl visit ?st (filter recorded
      (preOrderTraversal ex_wide_ws [] (newRootItem ex_Wide)))) = [(0, Some ''Starting...''), (1, None)]"
    unfolding wide_recorded split .
  then have "reported (indexTop ex_wide_ws Map.empty ex_Wide) =
      [(0, Some ''Starting...''), (1, None), (100, Some ''Done'')]"
    unfolding indexTop_def indexItems_reported
    by (subst foldl_visit_filter) simp
  with direct all show ?thesis by simp
qed

lemma ex_Top_reported:
  "map fst (reported (indexTop ex_ws Map.empty ex_Top)) = [0, 100]"
proof -
  have "length (filter recorded (preOrderTraversal ex_ws [] (newRootItem ex_Top))) = 2"
    unfolding ex_Top_visited by (simp add: ex_item_recorded)
  then have "reported (indexTop ex_ws Map.empty ex_Top) =
      [(0, Some ''Starting...''), (100, Some ''Done'')]"
    unfolding indexTop_def by (intro few_reported) simp
  then show ?thesis by simp
qed

text \<open>
  C5. For every run of \<^verbatim>\<open>indexTop\<close>, the progress shown after each report never decreases.
  After every report made before and during the traversal it is between 0 and 94, so it
  does not exceed 100 before the pass completes; the last report is the one made when the
  traversal has ended, and after it the progress is 100: the value 100 is reached exactly
  once, with that last report.
\<close>

theorem indexItems_progress:
  "\<exists>before.
     cumulative 0 (map fst (reported (indexItems old visited))) = before @ [100] \<and>
     before = cumulative 0 (map fst (reported
                (foldl visit \<lparr>modules = Map.empty, pct = 0, lastReport = 0,
                                reported = [(0, Some ''Starting...'')]\<rparr> visited))) \<and>
     reported (indexItems old visited) =
       reported (foldl visit \<lparr>modules = Map.empty, pct = 0, lastReport = 0,
                                reported = [(0, Some ''Starting...'')]\<rparr> visited) @
       [(100, Some ''Done'')] \<and>
     sorted (before @ [100]) \<and>
     list_all (\<lambda>v. 0 \<le> v \<and> v \<le> 94) before \<and>
     list_all (\<lambda>v. v \<le> 100) (before @ [100]) \<and>
     count_list (before @ [100]) 100 = 1"
proof -
  let ?st = "\<lparr>modules = Map.empty, pct = 0, lastReport = 0,
               reported = [(0, Some ''Starting...'')]\<rparr>"
  let ?st1 = "foldl visit ?st visited"
  define pre where "pre = map fst (reported ?st1)"
  define before where "before = cumulative 0 pre"
  have inv0: "progress_inv ?st" by (rule progress_inv_start)
  then have inv: "progress_inv ?st1" by (rule progress_inv_foldl)
  have rep: "reported (indexItems old visited) = reported ?st1 @ [(100, Some ''Done'')]"
    by (rule indexItems_reported)
  then have incs: "map fst (reported (indexItems old visited)) = pre @ [100]"
    by (simp add: pre_def)
  have nonneg: "list_all (\<lambda>i. 0 \<le> i) pre"
    using inv by (simp add: progress_inv_def pre_def list.pred_map comp_def)
  have total: "sum_list pre = lastReport ?st1"
    using inv by (simp add: progress_inv_def pre_def)
  have "0 \<le> pct ?st1" "pct ?st1 < 95" "lastReport ?st1 = \<lfloor>pct ?st1\<rfloor>"
    using inv by (simp_all add: progress_inv_def)
  then have range: "0 \<le> sum_list pre" "sum_list pre \<le> 94"
    unfolding total by (simp_all add: floor_less_iff)
  then have room: "0 + sum_list pre \<le> 100" by simp
  have "cumulative 0 (pre @ [100]) = cumulative 0 pre @ cumulative (0 + sum_list pre) [100]"
    using nonneg room by (rule cumulative_append)
  then have app: "cumulative 0 (pre @ [100]) = before @ [100]"
    using range by (simp add: before_def)
  have bounds: "0 \<le> v \<and> v \<le> 94" if "v \<in> set before" for v
    using cumulative_bounds [OF nonneg room, of v] that range by (simp add: before_def)
  then have below: "list_all (\<lambda>v. 0 \<le> v \<and> v \<le> 94) before"
    by (simp add: list_all_iff)
  have "sorted before" unfolding before_def using nonneg room by (rule cumulative_sorted)
  then have srt: "sorted (before @ [100])"
    using bounds by (fastforce simp: sorted_append)
  have upto: "list_all (\<lambda>v. v \<le> 100) (before @ [100])"
    using bounds by (fastforce simp: list_all_iff)
  have "100 \<notin> set before" using bounds by fastforce
  then have once: "count_list (before @ [100]) 100 = 1"
    by (simp add: count_list_0_iff)
  from incs app rep srt below upto once show ?thesis
    unfolding before_def pre_def by simp
qed

theorem indexItems_progress_witness:
  "map fst (reported (indexTop ex_wide_ws Map.empty ex_Wide)) = [0, 1, 100] \<and>
   cumulative 0 (map fst (reported (indexTop ex_wide_ws Map.empty ex_Wide))) = [0, 1, 100] \<and>
   map fst (reported (indexTop ex_ws Map.empty ex_Top)) = [0, 100] \<and>
   cumulative 0 (map fst (reported (indexTop ex_ws Map.empty ex_Top))) = [0, 100] \<and>
   sorted [0, 1, 100 :: int] \<and> count_list [0, 1, 100 :: int] 100 = 1"
  using indexItems_progress [of Map.empty "preOrderTraversal ex_wide_ws [] (newRootItem ex_Wide)"]
    ex_wide_reported ex_Top_reported
  by (simp add: indexTop_def)

section \<open>The traversal on a hierarchy with cycles\<close>

lemma preOrderTraversal_self: "item \<in> set (preOrderTraversal ws path item)"
  by (subst preOrderTraversal.simps) simp

lemma preOrderTraversal_cut:
  "definitionSymbol item = Some d \<Longrightarrow> d \<in> set path \<Longrightarrow> preOrderTraversal ws path item = [item]"
  by (subst preOrderTraversal.simps) simp

lemma preOrderTraversal_None:
  "definitionSymbol item = None \<Longrightarrow> preOrderTraversal ws path item = [item]"
  by (subst preOrderTraversal.simps) simp

lemma preOrderTraversal_open:
  "definitionSymbol item = Some d \<Longrightarrow> d \<notin> set path \<Longrightarrow>
   preOrderTraversal ws path item =
     item # concat (map (preOrderTraversal ws (d # path))
                      (getChildren (workspace_findModuleSymbol ws) item))"
  by (subst preOrderTraversal.simps) simp

lemma preOrderTraversal_child:
  assumes "definitionSymbol item = Some d" "d \<notin> set path"
    and "c \<in> set (getChildren (workspace_findModuleSymbol ws) item)"
    and "n \<in> set (preOrderTraversal ws (d # path) c)"
  shows "n \<in> set (preOrderTraversal ws path item)"
  using assms by (auto simp: preOrderTraversal_open)

lemma preOrderTraversal_below:
  assumes "n \<in> set (preOrderTraversal ws path item)" "n \<noteq> item"
  shows "\<exists>d c. definitionSymbol item = Some d \<and> d \<notin> set path \<and>
           c \<in> set (getChildren (workspace_findModuleSymbol ws) item) \<and>
           n \<in> set (preOrderTraversal ws (d # path) c)"
proof -
  from assms(1) have "n \<in> set (item #
     (case definitionSymbol item of
        None \<Rightarrow> []
      | Some d \<Rightarrow>
          if d \<in> set path then []
          else concat (map (preOrderTraversal ws (d # path))
                         (getChildren (workspace_findModuleSymbol ws) item))))"
    by (subst (asm) preOrderTraversal.simps)
  with assms(2) show ?thesis
    by (cases "definitionSymbol item") (auto split: if_splits)
qed

lemma getChildren_parent: "c \<in> set (getChildren f item) \<Longrightarrow> parent c = Some item"
  by (cases "cls item"; cases "definitionSymbol item")
    (auto simp: getChildren_def ModuleItem_getChildren_def split: if_splits)

lemma ancestorDefs_parent:
  "parent c = Some p \<Longrightarrow>
   ancestorDefs c = (case definitionSymbol p of None \<Rightarrow> ancestorDefs p | Some dp \<Rightarrow> dp # ancestorDefs p)"
  by (cases c) simp

lemma visited_ancestorDefs:
  "ancestorDefs item = path \<Longrightarrow> distinct path \<Longrightarrow> n \<in> set (preOrderTraversal ws path item) \<Longrightarrow>
   distinct (ancestorDefs n) \<and> set path \<subseteq> set (ancestorDefs n) \<and>
   (n \<noteq> item \<longrightarrow> (\<forall>d. definitionSymbol item = Some d \<longrightarrow> d \<in> set (ancestorDefs n)))"
proof (induction ws path item arbitrary: n rule: preOrderTraversal.induct)
  case (1 ws path item)
  show ?case
  proof (cases "n = item")
    case True
    with "1.prems" show ?thesis by simp
  next
    case False
    with "1.prems"(3) obtain d c where d: "definitionSymbol item = Some d" "d \<notin> set path"
      and c: "c \<in> set (getChildren (workspace_findModuleSymbol ws) item)"
      and n: "n \<in> set (preOrderTraversal ws (d # path) c)"
      using preOrderTraversal_below by blast
    have "ancestorDefs c = d # path"
      using getChildren_parent [OF c] d(1) "1.prems"(1) by (simp add: ancestorDefs_parent)
    moreover have "distinct (d # path)" using d(2) "1.prems"(2) by simp
    ultimately have "distinct (ancestorDefs n) \<and> set (d # path) \<subseteq> set (ancestorDefs n)"
      using "1.IH" [OF d c _ _ n] by blast
    with d(1) show ?thesis by auto
  qed
qed

lemma sameItem_refl [simp]: "sameItem a a"
  by (simp add: sameItem_def)

lemma sameItem_trans: "sameItem a b \<Longrightarrow> sameItem b c \<Longrightarrow> sameItem a c"
  by (simp add: sameItem_def)

lemma sameItem_childItem: "sameItem (childItem f a s) (childItem f b s)"
  by (simp add: sameItem_def childItem_def newInternalScopeItem_def newModuleItem_def
      newLogicItem_def)

lemma has_child_class: "c \<in> set (getChildren f a) \<Longrightarrow> cls a \<noteq> LogicItem"
  by (auto simp: getChildren_def)

lemma has_child_definition: "c \<in> set (getChildren f a) \<Longrightarrow> \<exists>d. definitionSymbol a = Some d"
  by (cases "definitionSymbol a") (auto simp: getChildren_None)

lemma getChildren_same:
  assumes "c \<in> set (getChildren f a)" "definitionSymbol b = definitionSymbol a"
    "cls b \<noteq> LogicItem"
  shows "\<exists>c' \<in> set (getChildren f b). sameItem c c'"
proof -
  from assms(1) obtain d where d: "definitionSymbol a = Some d"
    using has_child_definition by blast
  have a: "cls a \<noteq> LogicItem" using assms(1) by (rule has_child_class)
  from assms(1) obtain s where s: "s \<in> set (filter (\<lambda>child. type child \<notin> EXCLUDED_SYMS) (children d))"
    and c: "c = childItem f a s"
    unfolding getChildren_Some [OF a d] by auto
  have "childItem f b s \<in> set (getChildren f b)"
    using s assms(2,3) d by (simp add: getChildren_Some)
  then show ?thesis unfolding c using sameItem_childItem by blast
qed

lemma isChain_Cons: "isChain f (a # chain) \<Longrightarrow> chain \<noteq> [] \<Longrightarrow>
    hd chain \<in> set (getChildren f a) \<and> isChain f chain"
  by (cases chain) simp_all

lemma chain_rebase:
  assumes "isChain f (a # chain)" "chain \<noteq> []" "definitionSymbol b = definitionSymbol a"
    "cls b \<noteq> LogicItem"
  shows "\<exists>chain'. isChain f (b # chain') \<and> length chain' = length chain \<and>
           sameItem (last chain) (last chain')"
  using assms
proof (induction chain arbitrary: a b)
  case Nil
  then show ?case by simp
next
  case (Cons c rest)
  from Cons.prems(1) have c: "c \<in> set (getChildren f a)" and rc: "isChain f (c # rest)"
    by simp_all
  from getChildren_same [OF c Cons.prems(3,4)] obtain c' where
    c': "c' \<in> set (getChildren f b)" "sameItem c c'" by blast
  show ?case
  proof (cases rest)
    case Nil
    with c' show ?thesis by (intro exI [of _ "[c']"]) simp
  next
    case (Cons c2 rest2)
    then have "rest \<noteq> []" by simp
    moreover from rc Cons have "cls c \<noteq> LogicItem" by (auto dest: has_child_class)
    then have "cls c' \<noteq> LogicItem" "definitionSymbol c' = definitionSymbol c"
      using c'(2) by (simp_all add: sameItem_def)
    ultimately obtain rest' where r: "isChain f (c' # rest')" "length rest' = length rest"
      "sameItem (last rest) (last rest')"
      using Cons.IH [OF rc] by blast
    from r(2) \<open>rest \<noteq> []\<close> have "rest' \<noteq> []" by auto
    with r c'(1) \<open>rest \<noteq> []\<close> show ?thesis
      by (intro exI [of _ "c' # rest'"]) (cases rest', simp_all)
  qed
qed

lemma visited_or_above:
  assumes "isChain (workspace_findModuleSymbol ws) (item # chain)" "chain \<noteq> []"
    and "definitionSymbol item = Some d" "d \<notin> set path"
  shows "(\<exists>n \<in> set (preOrderTraversal ws path item). sameItem (last chain) n) \<or>
         (\<exists>item' chain' d'.
            definitionSymbol item' = Some d' \<and> d' \<in> set path \<and>
            isChain (workspace_findModuleSymbol ws) (item' # chain') \<and> chain' \<noteq> [] \<and>
            length chain' < length chain \<and> sameItem (last chain) (last chain'))"
  using assms
proof (induction "length chain" arbitrary: chain item d path rule: less_induct)
  case less
  let ?f = "workspace_findModuleSymbol ws"
  let ?A = "\<lambda>k (target :: ScopeItem) path. \<exists>item' chain' d'.
            definitionSymbol item' = Some d' \<and> d' \<in> set path \<and>
            isChain ?f (item' # chain') \<and> chain' \<noteq> [] \<and>
            length chain' < k \<and> sameItem target (last chain')"
  from less.prems(2) obtain c rest where chain: "chain = c # rest" by (cases chain) auto
  from less.prems(1) have c: "c \<in> set (getChildren ?f item)" and rc: "isChain ?f (c # rest)"
    by (simp_all add: chain)
  have item_cls: "cls item \<noteq> LogicItem" using c by (rule has_child_class)
  have below: "n \<in> set (preOrderTraversal ws path item)"
    if "n \<in> set (preOrderTraversal ws (d # path) c)" for n
    using less.prems(3,4) c that by (rule preOrderTraversal_child)
  \<comment> \<open>a shorter path from the item itself\<close>
  have again: "(\<exists>n \<in> set (preOrderTraversal ws path item). sameItem target n) \<or>
      ?A (length chain) target path"
    if "isChain ?f (item # chain2)" "chain2 \<noteq> []" "length chain2 < length chain"
      "sameItem target (last chain2)" for chain2 target
  proof -
    from less.hyps [OF that(3) that(1,2) less.prems(3,4)]
    consider n where "n \<in> set (preOrderTraversal ws path item)" "sameItem (last chain2) n"
      | item' chain' d' where "definitionSymbol item' = Some d'" "d' \<in> set path"
        "isChain ?f (item' # chain')" "chain' \<noteq> []" "length chain' < length chain2"
        "sameItem (last chain2) (last chain')"
      by blast
    then show ?thesis
    proof cases
      case 1
      with that(4) show ?thesis by (blast intro: sameItem_trans)
    next
      case 2
      from 2(5) that(3) have "length chain' < length chain" by simp
      moreover from that(4) 2(6) have "sameItem target (last chain')" by (rule sameItem_trans)
      ultimately show ?thesis using 2(1-4) by blast
    qed
  qed
  show ?case
  proof (cases rest)
    case Nil
    have "c \<in> set (preOrderTraversal ws path item)"
      by (rule below) (rule preOrderTraversal_self)
    then have "\<exists>n \<in> set (preOrderTraversal ws path item). sameItem c n"
      by (intro bexI [of _ c]) simp_all
    then show ?thesis by (simp add: chain Nil)
  next
    case (Cons c2 rest2)
    then have rest: "rest \<noteq> []" and last: "last chain = last rest"
      by (simp_all add: chain)
    from rc Cons have c2: "c2 \<in> set (getChildren ?f c)" by simp
    then obtain d1 where d1: "definitionSymbol c = Some d1"
      using has_child_definition by blast
    have c_cls: "cls c \<noteq> LogicItem" using c2 by (rule has_child_class)
    have len: "length rest < length chain" by (simp add: chain)
    consider (own) "d1 = d" | (above) "d1 \<in> set path" | (fresh) "d1 \<notin> set (d # path)"
      by auto
    then show ?thesis
    proof cases
      case own
      then have "definitionSymbol item = definitionSymbol c" using d1 less.prems(3) by simp
      from chain_rebase [OF rc rest this item_cls] obtain rest' where
        r: "isChain ?f (item # rest')" "length rest' = length rest" "sameItem (last rest) (last rest')"
        by blast
      from r(2) rest have "rest' \<noteq> []" by auto
      from again [OF r(1) this _ r(3)] r(2) len show ?thesis
        unfolding last by simp
    next
      case above
      have "?A (length chain) (last chain) path"
        using d1 above rc rest len unfolding last
        by (intro exI [of _ c] exI [of _ rest] exI [of _ d1]) simp
      then show ?thesis by blast
    next
      case fresh
      from less.hyps [OF len rc rest d1 fresh]
      consider n where "n \<in> set (preOrderTraversal ws (d # path) c)" "sameItem (last rest) n"
        | item' chain' d' where "definitionSymbol item' = Some d'" "d' \<in> set (d # path)"
          "isChain ?f (item' # chain')" "chain' \<noteq> []" "length chain' < length rest"
          "sameItem (last rest) (last chain')"
        by blast
      then show ?thesis
      proof cases
        case 1
        then show ?thesis unfolding last using below by blast
      next
        case 2
        show ?thesis
        proof (cases "d' = d")
          case True
          then have "definitionSymbol item = definitionSymbol item'"
            using 2(1) less.prems(3) by simp
          from chain_rebase [OF 2(3,4) this item_cls] obtain chain2 where
            r: "isChain ?f (item # chain2)" "length chain2 = length chain'"
            "sameItem (last chain') (last chain2)"
            by blast
          from r(2) 2(4) have ne: "chain2 \<noteq> []" by auto
          have "sameItem (last rest) (last chain2)" using 2(6) r(3) by (rule sameItem_trans)
          from again [OF r(1) ne _ this] r(2) 2(5) len show ?thesis
            unfolding last by simp
        next
          case False
          with 2(2) have "d' \<in> set path" by simp
          moreover from 2(5) len have "length chain' < length chain" by simp
          ultimately have "?A (length chain) (last chain) path"
            using 2(1,3,4,6) unfolding last by blast
          then show ?thesis by blast
        qed
      qed
    qed
  qed
qed

lemma hierarchy_visited:
  assumes "isChain (workspace_findModuleSymbol ws) (newRootItem t # chain)" "chain \<noteq> []"
  shows "\<exists>n \<in> set (preOrderTraversal ws [] (newRootItem t)). sameItem (last chain) n"
  using visited_or_above [OF assms, of t "[]"] by (simp add: newRootItem_def)

lemma ex_cycle_visited:
  "preOrderTraversal ex_cycle_ws [] (newRootItem ex_A) = [newRootItem ex_A, ex_item_b, ex_item_a]"
  by code_simp

text \<open>
  C4. \<^verbatim>\<open>preOrderTraversal\<close> is a total function: its recursion ends on every workspace and
  every item, because an item whose definition is on the current path is visited and not
  expanded, so that the definitions above a visited item are all different. For every top
  module \<open>M\<close> that the hierarchy instantiates again, directly or through other modules, an
  instance of \<open>M\<close> is visited; the traversal is cut off at it, and the index holds an
  instance of \<open>M\<close> at its path.
\<close>

theorem preOrderTraversal_cycle:
  assumes "isChain (workspace_findModuleSymbol ws) (newRootItem M # chain)" "chain \<noteq> []"
    and "cls (last chain) = ModuleItem" "definitionSymbol (last chain) = Some M"
  shows "(\<exists>n \<in> set (preOrderTraversal ws [] (newRootItem M)).
            cls n = ModuleItem \<and> definitionSymbol n = Some M \<and>
            M \<in> set (ancestorDefs n) \<and>
            preOrderTraversal ws (ancestorDefs n) n = [n] \<and>
            revealPath (modules (indexTop ws old M)) M (getPath n) \<noteq> None) \<and>
         (\<forall>v \<in> set (preOrderTraversal ws [] (newRootItem M)). distinct (ancestorDefs v)) \<and>
         preOrderTraversal ws [] (newRootItem M) =
           newRootItem M #
           concat (map (preOrderTraversal ws [M])
                     (getChildren (workspace_findModuleSymbol ws) (newRootItem M)))"
proof (intro conjI)
  let ?root = "newRootItem M"
  let ?vs = "preOrderTraversal ws [] ?root"
  have root: "ancestorDefs ?root = []" "definitionSymbol ?root = Some M" "cls ?root = RootItem"
    by (simp_all add: newRootItem_def)
  from hierarchy_visited [OF assms(1,2)] obtain n where n: "n \<in> set ?vs"
    and same: "sameItem (last chain) n"
    by blast
  from same assms(3,4) have cn: "cls n = ModuleItem" and dn: "definitionSymbol n = Some M"
    by (simp_all add: sameItem_def)
  from cn root(3) have "n \<noteq> ?root" by auto
  with visited_ancestorDefs [OF root(1) _ n] root(2) have M: "M \<in> set (ancestorDefs n)"
    by simp
  with dn have cut: "preOrderTraversal ws (ancestorDefs n) n = [n]"
    by (rule preOrderTraversal_cut)
  have "find (\<lambda>i. cls i = ModuleItem \<and> definitionSymbol i = Some M \<and> getPath i = getPath n)
      (rev ?vs) \<noteq> None"
    using n cn dn by (auto simp: find_None_iff)
  then have "revealPath (modules (indexTop ws old M)) M (getPath n) \<noteq> None"
    unfolding indexTop_def revealPath_indexItems .
  with n cn dn M cut
  show "\<exists>n \<in> set ?vs. cls n = ModuleItem \<and> definitionSymbol n = Some M \<and>
      M \<in> set (ancestorDefs n) \<and> preOrderTraversal ws (ancestorDefs n) n = [n] \<and>
      revealPath (modules (indexTop ws old M)) M (getPath n) \<noteq> None"
    by blast
  show "\<forall>v \<in> set ?vs. distinct (ancestorDefs v)"
    using visited_ancestorDefs [OF root(1), of _ ws] by simp
  show "?vs = ?root # concat (map (preOrderTraversal ws [M])
      (getChildren (workspace_findModuleSymbol ws) ?root))"
    using root(2) by (simp add: preOrderTraversal_open)
qed

theorem preOrderTraversal_cycle_witness:
  "isChain (workspace_findModuleSymbol ex_cycle_ws) (newRootItem ex_A # [ex_item_b, ex_item_a]) \<and>
   cls (last [ex_item_b, ex_item_a]) = ModuleItem \<and>
   definitionSymbol (last [ex_item_b, ex_item_a]) = Some ex_A \<and>
   preOrderTraversal ex_cycle_ws [] (newRootItem ex_A) = [newRootItem ex_A, ex_item_b, ex_item_a] \<and>
   ancestorDefs ex_item_a = [ex_B, ex_A] \<and>
   preOrderTraversal ex_cycle_ws [ex_B, ex_A] ex_item_a = [ex_item_a] \<and>
   revealPath (modules (indexTop ex_cycle_ws Map.empty ex_A)) ex_A ''A.b.a'' = Some ex_item_a \<and>
   revealPath (modules (indexTop ex_cycle_ws Map.empty ex_A)) ex_B ''A.b'' = Some ex_item_b"
proof -
  let ?f = "workspace_findModuleSymbol ex_cycle_ws"
  have ch: "isChain ?f (newRootItem ex_A # [ex_item_b, ex_item_a])"
    by (simp add: getChildren_defs ex_item_b_def ex_item_a_def ex_A_def ex_B_def
        ex_cycle_ws_def workspace_findModuleSymbol_def)
  have ne: "[ex_item_b, ex_item_a] \<noteq> []" by simp
  have l: "cls (last [ex_item_b, ex_item_a]) = ModuleItem"
    "definitionSymbol (last [ex_item_b, ex_item_a]) = Some ex_A"
    by (simp_all add: ex_item_a_def)
  have a: "ancestorDefs ex_item_a = [ex_B, ex_A]"
    by (simp add: ex_item_a_def ex_item_b_def newRootItem_def)
  have cut: "preOrderTraversal ex_cycle_ws [ex_B, ex_A] ex_item_a = [ex_item_a]"
    by (rule preOrderTraversal_cut [of _ ex_A]) (simp_all add: ex_item_a_def)
  have p: "getPath ex_item_a = ''A.b.a''" "getPath ex_item_b = ''A.b''"
    by (simp_all add: ex_item_a_def ex_item_b_def newRootItem_def ex_A_def)
  have f: "cls ex_item_a = ModuleItem" "cls ex_item_b = ModuleItem" "cls (newRootItem ex_A) = RootItem"
    "definitionSymbol ex_item_a = Some ex_A" "definitionSymbol ex_item_b = Some ex_B"
    by (simp_all add: ex_item_a_def ex_item_b_def newRootItem_def)
  have neq: "ex_A \<noteq> ex_B" by (simp add: ex_A_def ex_B_def)
  have r: "revealPath (modules (indexTop ex_cycle_ws Map.empty ex_A)) ex_A ''A.b.a'' = Some ex_item_a"
    "revealPath (modules (indexTop ex_cycle_ws Map.empty ex_A)) ex_B ''A.b'' = Some ex_item_b"
    unfolding indexTop_def ex_cycle_visited
    by (simp_all add: revealPath_indexItems f p neq)
  note preOrderTraversal_cycle [OF ch ne l, of Map.empty]
  with ch l a cut r ex_cycle_visited show ?thesis by blast
qed

end
